(* ===== verification/Prelude.thy ===== *)
theory Prelude
  imports Main
begin

text \<open>
  Shared vocabulary of the development: the fact collections the component theories
  fill, the type of string parsers used by the decoders, hexadecimal digits as Go's
  \<open>encoding/json\<close> writes them, and the generic list and character lemmas the
  components share.
\<close>

named_theorems json_simps "equations that evaluate the JSON encoder on concrete values"
named_theorems handler_defs "unfolding rules of the request handlers of main.go"
named_theorems route_simps "equations that evaluate route matching on concrete paths"

type_synonym 'a parser = "string \<Rightarrow> ('a \<times> string) option"

text \<open>An HTTP header as an association list from canonical key to value.\<close>

type_synonym header = "(string \<times> string) list"

text \<open>Consume a fixed literal at the front of the input.\<close>

fun expect :: "string \<Rightarrow> unit parser" where
  "expect [] s = Some ((), s)"
| "expect (x # xs) [] = None"
| "expect (x # xs) (y # ys) = (if x = y then expect xs ys else None)"

text \<open>Go's \<open>hex = "0123456789abcdef"\<close> of \<open>encoding/json\<close> and its inverse.\<close>

definition hex_digit :: "nat \<Rightarrow> char" where
  "hex_digit n = ''0123456789abcdef'' ! n"

definition hex_val :: "char \<Rightarrow> nat option" where
  "hex_val c =
     (let n = of_char c :: nat in
      if 48 \<le> n \<and> n \<le> 57 then Some (n - 48)
      else if 97 \<le> n \<and> n \<le> 102 then Some (n - 87)
      else if 65 \<le> n \<and> n \<le> 70 then Some (n - 55)
      else None)"

subsection \<open>Shared lemmas\<close>

lemma expect_append [simp]: "expect xs (xs @ r) = Some ((), r)"
  by (induction xs) auto

lemma expect_Some: "expect xs s = Some ((), r) \<Longrightarrow> s = xs @ r"
  by (induction xs s rule: expect.induct) (auto split: if_splits)

lemma less_16_cases: "(n::nat) < 16 \<Longrightarrow>
  n \<in> {0, 1, 2, 3, 4, 5, 6, 7, 8, 9, 10, 11, 12, 13, 14, 15}"
  by (simp add: less_Suc_eq numeral_eq_Suc)

lemma hex_val_digit [simp]: "n < 16 \<Longrightarrow> hex_val (hex_digit n) = Some n"
  by (drule less_16_cases) (auto simp: hex_val_def hex_digit_def)

lemma of_char_less_256 [simp]: "(of_char c :: nat) < 256"
  by (rule nat_of_char_less_256)

lemma char_of_nat_of_char [simp]: "char_of (of_char c :: nat) = c"
  by (rule char_of_char)

lemma of_char_inject_nat: "(of_char a :: nat) = of_char b \<longleftrightarrow> a = b"
  by (metis char_of_char)

lemma drop_Suc_shorter [simp]: "0 < n \<Longrightarrow> length (drop n (c # cs)) < Suc (length cs)"
  by simp

lemma dropWhile_prefix:
  "\<forall>e \<in> set (dropWhile (\<lambda>e. e = d) (pre @ d # rest)). e \<noteq> d \<Longrightarrow> \<forall>e \<in> set pre. e = d"
proof (induction pre)
  case (Cons x pre)
  show ?case
  proof (cases "x = d")
    case True
    have eq: "dropWhile (\<lambda>e. e = d) ((x # pre) @ d # rest) = dropWhile (\<lambda>e. e = d) (pre @ d # rest)"
      using True by simp
    have "\<forall>e \<in> set (dropWhile (\<lambda>e. e = d) (pre @ d # rest)). e \<noteq> d"
      using Cons.prems unfolding eq .
    then have "\<forall>e \<in> set pre. e = d" by (rule Cons.IH)
    then show ?thesis using True by simp
  next
    case False
    then have "d \<in> set (dropWhile (\<lambda>e. e = d) ((x # pre) @ d # rest))" by simp
    with Cons.prems have "d \<noteq> d" by (rule bspec)
    then show ?thesis by simp
  qed
next
  case Nil
  show ?case by simp
qed

end
