(* ===== verification/Json.thy ===== *)
theory Json
  imports Prelude "HOL-Library.Char_ord" "HOL-Library.List_Lexorder" "HOL-Library.Multiset"
begin

text \<open>
  The JSON text that gin's \<open>c.JSON\<close> writes: gin's \<open>render.JSON\<close> calls
  \<open>json.Marshal\<close>, which quotes every string with \<open>appendString\<close> of Go's
  \<open>encoding/json\<close> (HTML escaping on). The string encoder walks the bytes: ASCII bytes
  outside the HTML-safe set are escaped, multi-byte runes are decoded as UTF-8, an
  invalid byte becomes the escape of U+FFFD and U+2028/U+2029 are escaped. Values are the JSON
  shapes the handlers of main.go produce: strings, arrays, objects and null.
  A decoder for the same texts is given with its round-trip theorem.
\<close>

subsection \<open>Bytes\<close>

abbreviation bslash :: char where "bslash \<equiv> CHR 0x5C"
abbreviation dquote :: char where "dquote \<equiv> CHR 0x22"

text \<open>\<open>htmlSafeSet\<close>: the ASCII bytes copied unescaped when HTML escaping is on.\<close>

definition html_safe :: "char \<Rightarrow> bool" where
  "html_safe c \<longleftrightarrow>
     (let n = of_char c :: nat in
      32 \<le> n \<and> n < 128 \<and> c \<noteq> dquote \<and> c \<noteq> bslash
      \<and> c \<noteq> CHR ''<'' \<and> c \<noteq> CHR ''>'' \<and> c \<noteq> CHR ''&'')"

text \<open>The escape written for one ASCII byte (the \<open>b < utf8.RuneSelf\<close> branch).\<close>

definition escape_byte :: "char \<Rightarrow> string" where
  "escape_byte c =
     (if html_safe c then [c]
      else if c = bslash \<or> c = dquote then [bslash, c]
      else if c = CHR 0x08 then [bslash, CHR ''b'']
      else if c = CHR 0x0C then [bslash, CHR ''f'']
      else if c = CHR 0x0A then [bslash, CHR ''n'']
      else if c = CHR 0x0D then [bslash, CHR ''r'']
      else if c = CHR 0x09 then [bslash, CHR ''t'']
      else [bslash, CHR ''u'', CHR ''0'', CHR ''0'',
            hex_digit (of_char c div 16), hex_digit (of_char c mod 16)])"

subsection \<open>UTF-8 decoding as \<open>utf8.DecodeRuneInString\<close> does it\<close>

text \<open>
  For a leading byte at or above 0x80, the table \<open>first\<close>/\<open>acceptRanges\<close> of
  Go's \<open>unicode/utf8\<close>: the length of the sequence and the range allowed for its
  second byte; length 0 marks a byte that never starts a sequence.
\<close>

definition utf8_accept :: "nat \<Rightarrow> nat \<times> nat \<times> nat" where
  "utf8_accept b =
     (if 0xC2 \<le> b \<and> b \<le> 0xDF then (2, 0x80, 0xBF)
      else if b = 0xE0 then (3, 0xA0, 0xBF)
      else if 0xE1 \<le> b \<and> b \<le> 0xEC then (3, 0x80, 0xBF)
      else if b = 0xED then (3, 0x80, 0x9F)
      else if 0xEE \<le> b \<and> b \<le> 0xEF then (3, 0x80, 0xBF)
      else if b = 0xF0 then (4, 0x90, 0xBF)
      else if 0xF1 \<le> b \<and> b \<le> 0xF3 then (4, 0x80, 0xBF)
      else if b = 0xF4 then (4, 0x80, 0x8F)
      else (0, 0, 0))"

definition utf8_cont :: "char \<Rightarrow> bool" where
  "utf8_cont c \<longleftrightarrow> 0x80 \<le> (of_char c :: nat) \<and> (of_char c :: nat) \<le> 0xBF"

text \<open>
  The size of the rune at the front of a string whose first byte is not ASCII, or 0
  where \<open>DecodeRuneInString\<close> answers \<open>(RuneError, 1)\<close>.
\<close>

definition utf8_len :: "string \<Rightarrow> nat" where
  "utf8_len s =
     (case s of [] \<Rightarrow> 0
      | c # cs \<Rightarrow>
          (case utf8_accept (of_char c) of (sz, lo, hi) \<Rightarrow>
            if sz = 0 \<or> length s < sz then 0
            else if \<not> (lo \<le> (of_char (cs ! 0) :: nat) \<and> (of_char (cs ! 0) :: nat) \<le> hi) then 0
            else if 3 \<le> sz \<and> \<not> utf8_cont (cs ! 1) then 0
            else if sz = 4 \<and> \<not> utf8_cont (cs ! 2) then 0
            else sz))"

definition ufffd :: string where
  "ufffd = [bslash, CHR ''u'', CHR ''f'', CHR ''f'', CHR ''f'', CHR ''d'']"

definition line_sep :: "char \<Rightarrow> string" where
  "line_sep d = [CHR 0xE2, CHR 0x80, d]"

subsection \<open>The string encoder\<close>

text \<open>
  The loop of \<open>appendString\<close>, one rune per call. Go batches unescaped bytes
  between \<open>start\<close> and \<open>i\<close> before appending them; the bytes written are the same.
\<close>

function escape_loop :: "string \<Rightarrow> string" where
  "escape_loop [] = []"
| "escape_loop (c # cs) =
     (if (of_char c :: nat) < 128 then escape_byte c @ escape_loop cs
      else
        (let n = utf8_len (c # cs) in
         if n = 0 then ufffd @ escape_loop cs
         else if take n (c # cs) = line_sep (CHR 0xA8)
           then [bslash, CHR ''u'', CHR ''2'', CHR ''0'', CHR ''2'', CHR ''8''] @ escape_loop (drop n (c # cs))
         else if take n (c # cs) = line_sep (CHR 0xA9)
           then [bslash, CHR ''u'', CHR ''2'', CHR ''0'', CHR ''2'', CHR ''9''] @ escape_loop (drop n (c # cs))
         else take n (c # cs) @ escape_loop (drop n (c # cs))))"
  by pat_completeness auto
termination
  by (relation "measure length") auto

definition quote_string :: "string \<Rightarrow> string" where
  "quote_string s = dquote # escape_loop s @ [dquote]"

subsection \<open>JSON values and \<open>json.Marshal\<close>\<close>

datatype json = JNull | JString string | JArray "json list" | JObject "(string \<times> json) list"

fun join_comma :: "string list \<Rightarrow> string" where
  "join_comma [] = []"
| "join_comma [x] = x"
| "join_comma (x # xs) = x @ '','' @ join_comma xs"

fun marshal :: "json \<Rightarrow> string" where
  "marshal JNull = ''null''"
| "marshal (JString s) = quote_string s"
| "marshal (JArray xs) = ''['' @ join_comma (map marshal xs) @ '']''"
| "marshal (JObject kvs) =
     ''{'' @ join_comma (map (\<lambda>(k, v). quote_string k @ '':'' @ marshal v) kvs) @ ''}''"

text \<open>
  A Go map (such as \<open>gin.H\<close>) is encoded as an object whose keys are sorted
  byte-wise (\<open>strings.Compare\<close>), which is the lexicographic order on \<open>string\<close>.
\<close>

definition json_of_map :: "(string \<times> json) list \<Rightarrow> json" where
  "json_of_map kvs = JObject (sort_key fst kvs)"

subsection \<open>A decoder for the encoder's output\<close>

text \<open>
  The reading side of the same text, as a JSON client decodes it: backslash-u escapes
  of the basic plane give the UTF-8 bytes of the code point (surrogate halves are
  refused), the short escapes their byte, raw control bytes are refused, other bytes
  are copied. \<open>utf8_valid\<close> is Go's \<open>utf8.ValidString\<close> over the same table as
  \<open>utf8_len\<close>.
\<close>

definition utf8_encode :: "nat \<Rightarrow> string option" where
  "utf8_encode cp =
     (if cp < 0x80 then Some [char_of cp]
      else if cp < 0x800 then Some [char_of (0xC0 + cp div 64), char_of (0x80 + cp mod 64)]
      else if 0xD800 \<le> cp \<and> cp \<le> 0xDFFF then None
      else if cp < 0x10000 then
        Some [char_of (0xE0 + cp div 4096), char_of (0x80 + (cp div 64) mod 64), char_of (0x80 + cp mod 64)]
      else None)"

definition hex4 :: "string \<Rightarrow> nat option" where
  "hex4 xs =
     (case map hex_val xs of
        [Some a, Some b, Some c, Some d] \<Rightarrow> Some (4096 * a + 256 * b + 16 * c + d)
      | _ \<Rightarrow> None)"

definition unescape :: "char \<Rightarrow> string \<Rightarrow> (string \<times> nat) option" where
  "unescape e rest =
     (if e = dquote \<or> e = bslash \<or> e = CHR ''/'' then Some ([e], 0)
      else if e = CHR ''b'' then Some ([CHR 0x08], 0)
      else if e = CHR ''f'' then Some ([CHR 0x0C], 0)
      else if e = CHR ''n'' then Some ([CHR 0x0A], 0)
      else if e = CHR ''r'' then Some ([CHR 0x0D], 0)
      else if e = CHR ''t'' then Some ([CHR 0x09], 0)
      else if e = CHR ''u'' then
        (case hex4 (take 4 rest) of
           None \<Rightarrow> None
         | Some cp \<Rightarrow> map_option (\<lambda>bs. (bs, 4)) (utf8_encode cp))
      else None)"

function str_body :: "string parser" where
  "str_body [] = None"
| "str_body (c # cs) =
     (if c = dquote then Some ([], cs)
      else if c = bslash then
        (case cs of
           [] \<Rightarrow> None
         | e # rest \<Rightarrow>
             (case unescape e rest of
                None \<Rightarrow> None
              | Some (bs, k) \<Rightarrow> map_option (\<lambda>(s, r). (bs @ s, r)) (str_body (drop k rest))))
      else if (of_char c :: nat) < 32 then None
      else map_option (\<lambda>(s, r). (c # s, r)) (str_body cs))"
  by pat_completeness auto
termination
  by (relation "measure length") auto

definition parse_string :: "string parser" where
  "parse_string s = (case s of [] \<Rightarrow> None | c # cs \<Rightarrow> if c = dquote then str_body cs else None)"

function utf8_valid :: "string \<Rightarrow> bool" where
  "utf8_valid [] = True"
| "utf8_valid (c # cs) =
     (if (of_char c :: nat) < 128 then utf8_valid cs
      else (let n = utf8_len (c # cs) in if n = 0 then False else utf8_valid (drop n (c # cs))))"
  by pat_completeness auto
termination
  by (relation "measure length") auto

text \<open>
  Arrays and objects: the opening byte, then elements separated by commas up to the
  closing byte. The element parser is a parameter; the number of elements is bounded
  by the length of the text, which is the fuel of \<open>list_items\<close>.
\<close>

fun list_items :: "'a parser \<Rightarrow> char \<Rightarrow> nat \<Rightarrow> 'a list parser" where
  "list_items p cl 0 s = None"
| "list_items p cl (Suc f) s =
     (case p s of
        None \<Rightarrow> None
      | Some (x, s1) \<Rightarrow>
          (case s1 of
             [] \<Rightarrow> None
           | c # s2 \<Rightarrow>
               if c = cl then Some ([x], s2)
               else if c = CHR '','' then map_option (\<lambda>(xs, r). (x # xs, r)) (list_items p cl f s2)
               else None))"

definition decode_list :: "'a parser \<Rightarrow> char \<Rightarrow> char \<Rightarrow> 'a list parser" where
  "decode_list p op cl s =
     (case s of
        [] \<Rightarrow> None
      | c # s1 \<Rightarrow>
          if c \<noteq> op then None
          else (case s1 of
                  [] \<Rightarrow> None
                | d # s2 \<Rightarrow> if d = cl then Some ([], s2) else list_items p cl (length s1) s1))"

definition decode_pair :: "(string \<times> string) parser" where
  "decode_pair s =
     (case parse_string s of None \<Rightarrow> None | Some (k, s1) \<Rightarrow>
      case expect '':'' s1 of None \<Rightarrow> None | Some (_, s2) \<Rightarrow>
      case parse_string s2 of None \<Rightarrow> None | Some (v, s3) \<Rightarrow> Some ((k, v), s3))"

definition decode_string_map :: "(string \<times> string) list parser" where
  "decode_string_map = decode_list decode_pair CHR ''{'' CHR ''}''"

subsection \<open>Escaping lemmas\<close>

lemma escape_byte_safe [simp]: "html_safe c \<Longrightarrow> escape_byte c = [c]"
  by (simp add: escape_byte_def)

lemma html_safe_ascii: "html_safe c \<Longrightarrow> (of_char c :: nat) < 128"
  by (simp add: html_safe_def Let_def)

text \<open>Strings of HTML-safe bytes are written as they are.\<close>

lemma escape_loop_safe [json_simps]: "list_all html_safe s \<Longrightarrow> escape_loop s = s"
  by (induction s) (auto simp: html_safe_ascii)

lemma str_body_high:
  "\<forall>x \<in> set xs. 128 \<le> (of_char x :: nat) \<Longrightarrow>
   str_body (xs @ t) = map_option (\<lambda>(s, r). (xs @ s, r)) (str_body t)"
  by (induction xs) (auto simp: option.map_comp split_def comp_def option.map_ident)

lemma utf8_accept_nz:
  "utf8_accept b = (sz, lo, hi) \<Longrightarrow> sz \<noteq> 0 \<Longrightarrow> 0xC2 \<le> b \<and> 0x80 \<le> lo \<and> 2 \<le> sz \<and> sz \<le> 4"
  by (auto simp: utf8_accept_def split: if_splits)

lemma utf8_len_high:
  assumes "utf8_len s = n" "0 < n"
  shows "n \<le> length s \<and> (\<forall>x \<in> set (take n s). 128 \<le> (of_char x :: nat))"
proof -
  obtain c cs where s: "s = c # cs" using assms by (cases s) (auto simp: utf8_len_def)
  obtain sz lo hi where acc: "utf8_accept (of_char c) = (sz, lo, hi)" by (metis prod_cases3)
  have nz: "sz \<noteq> 0" and n: "n = sz" and len: "sz \<le> length s"
    and b1: "lo \<le> (of_char (cs ! 0) :: nat)"
    and b2: "3 \<le> sz \<Longrightarrow> utf8_cont (cs ! 1)" and b3: "sz = 4 \<Longrightarrow> utf8_cont (cs ! 2)"
    using assms by (auto simp: utf8_len_def s acc split: if_splits)
  from utf8_accept_nz [OF acc nz] have lead: "0xC2 \<le> (of_char c :: nat)" and "0x80 \<le> lo"
    and "sz \<le> 4" by auto
  have "\<forall>i < sz. 128 \<le> (of_char (s ! i) :: nat)"
  proof (intro allI impI)
    fix i assume "i < sz"
    with \<open>sz \<le> 4\<close> have "i = 0 \<or> i = 1 \<or> i = 2 \<or> i = 3" by auto
    then show "128 \<le> (of_char (s ! i) :: nat)"
      using lead b1 \<open>0x80 \<le> lo\<close> b2 b3 \<open>i < sz\<close> \<open>sz \<le> 4\<close>
      by (auto simp: s utf8_cont_def)
  qed
  then show ?thesis using len n by (auto simp: in_set_conv_nth)
qed


lemma hex_val_zero [simp]: "hex_val (CHR ''0'') = Some 0"
  by (simp add: hex_val_def)

lemma hex4_byte:
  "(n :: nat) < 256 \<Longrightarrow> hex4 [CHR ''0'', CHR ''0'', hex_digit (n div 16), hex_digit (n mod 16)] = Some n"
  by (simp add: hex4_def)

lemma str_body_escape_byte:
  assumes "(of_char c :: nat) < 128"
  shows "str_body (escape_byte c @ t) = map_option (\<lambda>(s, r). (c # s, r)) (str_body t)"
proof (cases "html_safe c")
  case True
  then show ?thesis by (auto simp: html_safe_def Let_def)
next
  case False
  have u: "str_body ([bslash, CHR ''u'', CHR ''0'', CHR ''0'', hex_digit (of_char c div 16),
      hex_digit (of_char c mod 16)] @ t) = map_option (\<lambda>(s, r). (c # s, r)) (str_body t)"
    using assms by (simp add: unescape_def hex4_byte utf8_encode_def)
  show ?thesis using False u
    by (auto simp: escape_byte_def unescape_def)
qed


lemma utf8_encode_line_sep:
  "utf8_encode 0x2028 = Some (line_sep (CHR 0xA8))" "utf8_encode 0x2029 = Some (line_sep (CHR 0xA9))"
  by (simp_all add: utf8_encode_def line_sep_def) code_simp+

lemma hex4_line_sep:
  "hex4 [CHR ''2'', CHR ''0'', CHR ''2'', CHR ''8''] = Some 0x2028"
  "hex4 [CHR ''2'', CHR ''0'', CHR ''2'', CHR ''9''] = Some 0x2029"
  by (simp_all add: hex4_def hex_val_def)

lemma str_body_line_sep:
  assumes "str_body t = Some (s, r)" and "d = CHR 0xA8 \<and> x = CHR ''8'' \<or> d = CHR 0xA9 \<and> x = CHR ''9''"
  shows "str_body ([bslash, CHR ''u'', CHR ''2'', CHR ''0'', CHR ''2'', x] @ t) = Some (line_sep d @ s, r)"
  using assms by (auto simp: unescape_def hex4_line_sep utf8_encode_line_sep)

lemma str_body_escape_loop:
  "utf8_valid s \<Longrightarrow> str_body (escape_loop s @ dquote # r) = Some (s, r)"
proof (induction s rule: escape_loop.induct)
  case 1
  then show ?case by simp
next
  case (2 c cs)
  show ?case
  proof (cases "(of_char c :: nat) < 128")
    case True
    with "2.prems" have "utf8_valid cs" by simp
    with True "2.IH"(1) show ?thesis by (simp add: str_body_escape_byte)
  next
    case False
    define n where "n = utf8_len (c # cs)"
    from False "2.prems" have n0: "n \<noteq> 0" and v: "utf8_valid (drop n (c # cs))"
      by (simp_all add: n_def Let_def split: if_splits)
    have split: "take n (c # cs) @ drop n (c # cs) = c # cs" by simp
    have IH: "str_body (escape_loop (drop n (c # cs)) @ dquote # r) = Some (drop n (c # cs), r)"
      using "2.IH"(3) [OF False n_def n0] "2.IH"(4) [OF False n_def n0]
        "2.IH"(5) [OF False n_def n0] v
      by (cases "take n (c # cs) = line_sep (CHR 0xA8)"; cases "take n (c # cs) = line_sep (CHR 0xA9)") auto
    have high: "\<forall>x \<in> set (take n (c # cs)). 128 \<le> (of_char x :: nat)"
      using utf8_len_high [OF n_def [symmetric]] n0 by simp
    show ?thesis
    proof (cases "take n (c # cs) = line_sep (CHR 0xA8)")
      case True
      with False n0 have "escape_loop (c # cs) =
          [bslash, CHR ''u'', CHR ''2'', CHR ''0'', CHR ''2'', CHR ''8''] @ escape_loop (drop n (c # cs))"
        by (simp add: n_def Let_def)
      with str_body_line_sep [OF IH] True split show ?thesis by (metis append_assoc)
    next
      case False2: False
      show ?thesis
      proof (cases "take n (c # cs) = line_sep (CHR 0xA9)")
        case True
        with False False2 n0 have "escape_loop (c # cs) =
            [bslash, CHR ''u'', CHR ''2'', CHR ''0'', CHR ''2'', CHR ''9''] @ escape_loop (drop n (c # cs))"
          by (simp add: n_def Let_def)
        with str_body_line_sep [OF IH] True split show ?thesis by (metis append_assoc)
      next
        case False3: False
        with False False2 n0 have "escape_loop (c # cs) = take n (c # cs) @ escape_loop (drop n (c # cs))"
          by (simp add: n_def Let_def)
        with str_body_high [OF high] IH split show ?thesis by simp
      qed
    qed
  qed
qed

text \<open>
  C12. Round trip of \<open>json.Marshal\<close>'s string encoder: for every string that is
  valid UTF-8 (Go's \<open>utf8.ValidString\<close>), decoding the quoted text that
  \<open>appendString\<close> writes gives back the string and leaves what follows untouched.
\<close>

theorem parse_quote_string: "utf8_valid s \<Longrightarrow> parse_string (quote_string s @ r) = Some (s, r)"
  by (simp add: parse_string_def quote_string_def str_body_escape_loop)

theorem parse_quote_string_witness:
  "utf8_valid [CHR ''<'', CHR 0xC3, CHR 0xA9, dquote, CHR 0xE2, CHR 0x80, CHR 0xA8, CHR 0x0A] \<and>
   parse_string (quote_string [CHR ''<'', CHR 0xC3, CHR 0xA9, dquote, CHR 0xE2, CHR 0x80, CHR 0xA8, CHR 0x0A]
      @ '',x'') = Some ([CHR ''<'', CHR 0xC3, CHR 0xA9, dquote, CHR 0xE2, CHR 0x80, CHR 0xA8, CHR 0x0A], '',x'')"
proof -
  have v: "utf8_valid [CHR ''<'', CHR 0xC3, CHR 0xA9, dquote, CHR 0xE2, CHR 0x80, CHR 0xA8, CHR 0x0A]"
    by (simp add: utf8_len_def utf8_accept_def utf8_cont_def)
  show ?thesis using v parse_quote_string [OF v, of "'',x''"] by simp
qed

subsection \<open>Arrays and objects\<close>

lemma length_join_comma: "\<forall>x \<in> set xs. x \<noteq> [] \<Longrightarrow> length xs \<le> length (join_comma xs)"
proof (induction xs rule: join_comma.induct)
  case (3 x y ys)
  then show ?case by (cases x) auto
qed (auto simp: Suc_le_eq)

lemma list_items_join:
  assumes "\<forall>x \<in> set xs. \<forall>r. p (enc x @ r) = Some (x, r)"
    and "xs \<noteq> []" and "length xs \<le> f" and "cl \<noteq> CHR '',''"
  shows "list_items p cl f (join_comma (map enc xs) @ cl # r) = Some (xs, r)"
  using assms
proof (induction xs arbitrary: f rule: induct_list012)
  case (2 x)
  then obtain f' where "f = Suc f'" by (cases f) auto
  with 2 show ?case by simp
next
  case (3 x y ys)
  then obtain f' where f: "f = Suc f'" by (cases f) auto
  have "list_items p cl f' (join_comma (map enc (y # ys)) @ cl # r) = Some (y # ys, r)"
    using 3 f by simp
  moreover have "p (enc x @ CHR '','' # join_comma (map enc (y # ys)) @ cl # r)
      = Some (x, CHR '','' # join_comma (map enc (y # ys)) @ cl # r)"
    using "3.prems"(1) by (metis list.set_intros(1))
  ultimately show ?case using f "3.prems"(4) by (cases ys) auto
qed simp

lemma decode_list_join:
  assumes "\<forall>x \<in> set xs. \<forall>r. p (enc x @ r) = Some (x, r)"
    and "\<forall>x \<in> set xs. \<exists>c t. enc x = c # t \<and> c \<noteq> cl" and "cl \<noteq> CHR '',''"
  shows "decode_list p op cl (op # join_comma (map enc xs) @ cl # r) = Some (xs, r)"
proof (cases xs)
  case Nil
  then show ?thesis by (simp add: decode_list_def)
next
  case (Cons x ys)
  from assms(2) Cons obtain c t where ct: "enc x = c # t" "c \<noteq> cl" by auto
  have ne: "\<forall>x \<in> set (map enc xs). x \<noteq> []" using assms(2) by auto
  have "length xs \<le> length (join_comma (map enc xs) @ cl # r)"
    using length_join_comma [OF ne] by simp
  then have "list_items p cl (length (join_comma (map enc xs) @ cl # r)) (join_comma (map enc xs) @ cl # r)
      = Some (xs, r)"
    using list_items_join [OF assms(1) _ _ assms(3)] Cons by blast
  moreover obtain rest where s1: "join_comma (map enc xs) @ cl # r = c # rest"
    using Cons ct by (cases ys) auto
  ultimately show ?thesis using ct(2) by (simp add: decode_list_def)
qed

lemma marshal_string_object:
  "marshal (JObject (map (\<lambda>(k, v). (k, JString v)) kvs)) =
     CHR ''{'' # join_comma (map (\<lambda>(k, v). quote_string k @ '':'' @ quote_string v) kvs) @ ''}''"
  by (simp add: comp_def split_def)

lemma decode_string_map_object:
  assumes "\<forall>(k, v) \<in> set kvs. utf8_valid k \<and> utf8_valid v"
  shows "decode_string_map (marshal (JObject (map (\<lambda>(k, v). (k, JString v)) kvs)) @ r) = Some (kvs, r)"
proof -
  have p: "\<forall>x \<in> set kvs. \<forall>r. decode_pair ((case x of (k, v) \<Rightarrow> quote_string k @ '':'' @ quote_string v) @ r)
      = Some (x, r)"
    using assms by (auto simp: decode_pair_def parse_string_def quote_string_def str_body_escape_loop)
  have c: "\<forall>x \<in> set kvs. \<exists>c t. (case x of (k, v) \<Rightarrow> quote_string k @ '':'' @ quote_string v) = c # t
      \<and> c \<noteq> CHR ''}''"
    by (auto simp: quote_string_def)
  show ?thesis
    unfolding marshal_string_object
    using decode_list_join [OF p c, of "CHR ''{''" r]
    by (simp add: decode_string_map_def split_def)
qed

lemma sort_key_fst_map:
  assumes "\<And>x. fst (f x) = fst x"
  shows "sort_key fst (map f xs) = map f (sort_key fst xs)"
proof (induction xs)
  case (Cons x xs)
  have "insort_key fst (f x) (map f ys) = map f (insort_key fst x ys)" for ys
    using assms by (induction ys) auto
  then show ?case using Cons by simp
qed simp

text \<open>
  C16. Round trip of a Go \<open>map[string]string\<close> such as \<open>gin.H{"status": "ok"}\<close>:
  \<open>json.Marshal\<close> writes the entries in the order of their keys, and decoding the
  object gives back every key and value, for valid UTF-8 keys and values.
\<close>

theorem decode_string_map_json:
  assumes "\<forall>(k, v) \<in> set kvs. utf8_valid k \<and> utf8_valid v"
  shows "\<exists>ps. decode_string_map (marshal (json_of_map (map (\<lambda>(k, v). (k, JString v)) kvs)) @ r) = Some (ps, r)
           \<and> sorted (map fst ps) \<and> mset ps = mset kvs"
proof -
  let ?f = "\<lambda>(k, v). (k, JString v)"
  have "json_of_map (map ?f kvs) = JObject (map ?f (sort_key fst kvs))"
    unfolding json_of_map_def by (rule arg_cong [where f = JObject], rule sort_key_fst_map) auto
  moreover have "\<forall>(k, v) \<in> set (sort_key fst kvs). utf8_valid k \<and> utf8_valid v" using assms by simp
  ultimately have "decode_string_map (marshal (json_of_map (map ?f kvs)) @ r) = Some (sort_key fst kvs, r)"
    using decode_string_map_object by simp
  moreover have "sorted (map fst (sort_key fst kvs))" by (rule sorted_sort_key)
  moreover have "mset (sort_key fst kvs) = mset kvs" by (rule mset_sort)
  ultimately show ?thesis by blast
qed

theorem decode_string_map_json_witness:
  "utf8_valid ''status'' \<and> utf8_valid ''ok'' \<and> utf8_valid ''a'' \<and> utf8_valid ''b'' \<and>
   (\<exists>ps. decode_string_map (marshal (json_of_map (map (\<lambda>(k, v). (k, JString v)) [(''status'', ''ok''), (''a'', ''b'')])) @ [])
       = Some (ps, []) \<and> sorted (map fst ps) \<and> mset ps = mset [(''status'', ''ok''), (''a'', ''b'')])"
proof -
  have v: "\<forall>(k, v) \<in> set [(''status'', ''ok''), (''a'', ''b'')]. utf8_valid k \<and> utf8_valid v" by simp
  show ?thesis using v decode_string_map_json [OF v, of "[]"] by simp
qed

subsection \<open>Validity and size of the output\<close>

lemma utf8_len_prefix:
  assumes "utf8_len s = n" "0 < n" "n \<le> length t" "take n t = take n s"
  shows "utf8_len t = n"
proof -
  obtain c cs where s: "s = c # cs" using assms by (cases s) (auto simp: utf8_len_def)
  obtain sz lo hi where acc: "utf8_accept (of_char c) = (sz, lo, hi)" by (metis prod_cases3)
  have nz: "sz \<noteq> 0" and n: "n = sz" and len: "sz \<le> length s"
    using assms by (auto simp: utf8_len_def s acc split: if_splits)
  from utf8_accept_nz [OF acc nz] have "2 \<le> sz" "sz \<le> 4" by auto
  obtain ds where t: "t = c # ds" and pre: "take (n - 1) ds = take (n - 1) cs"
  proof -
    have "n = Suc (n - 1)" using \<open>2 \<le> sz\<close> n by simp
    then have "take (Suc (n - 1)) t = c # take (n - 1) cs" using assms(4) s by (metis take_Suc_Cons)
    then show ?thesis using that by (cases t) auto
  qed
  have "\<forall>i < n - 1. ds ! i = cs ! i"
    using pre by (metis nth_take)
  then show ?thesis using assms(1,3) \<open>2 \<le> sz\<close> \<open>sz \<le> 4\<close> n len
    by (auto simp: utf8_len_def s t acc split: if_splits)
qed

lemma utf8_len_append: "0 < utf8_len s \<Longrightarrow> utf8_len (s @ t) = utf8_len s"
proof -
  assume n0: "0 < utf8_len s"
  then have "utf8_len s \<le> length s" using utf8_len_high [OF refl] by blast
  then show ?thesis using n0 by (intro utf8_len_prefix [OF refl]) auto
qed

lemma utf8_len_take: "0 < utf8_len s \<Longrightarrow> utf8_len (take (utf8_len s) s) = utf8_len s"
proof -
  assume n0: "0 < utf8_len s"
  then have "utf8_len s \<le> length s" using utf8_len_high [OF refl] by blast
  then show ?thesis using n0 by (intro utf8_len_prefix [OF refl]) auto
qed

lemma utf8_valid_ascii: "\<forall>c \<in> set s. (of_char c :: nat) < 128 \<Longrightarrow> utf8_valid s"
  by (induction s) auto

lemma utf8_valid_append: "utf8_valid s \<Longrightarrow> utf8_valid t \<Longrightarrow> utf8_valid (s @ t)"
proof (induction s rule: utf8_valid.induct)
  case (2 c cs)
  show ?case
  proof (cases "(of_char c :: nat) < 128")
    case False
    define n where "n = utf8_len (c # cs)"
    with False "2.prems" have n0: "0 < n" and v: "utf8_valid (drop n (c # cs))"
      by (simp_all add: Let_def split: if_splits)
    have "n \<le> length (c # cs)" using utf8_len_high [OF n_def [symmetric] n0] by simp
    moreover have "utf8_len (c # cs @ t) = n"
      using utf8_len_append [of "c # cs" t] n0 n_def by simp
    moreover have "drop n (c # cs @ t) = drop n (c # cs) @ t"
      using calculation(1) by (simp only: append_Cons [symmetric] drop_append) simp
    ultimately show ?thesis using "2.IH"(2) [OF False n_def] n0 v "2.prems"(2) False
      by (simp add: Let_def)
  qed (use "2" in simp)
qed simp

lemma utf8_valid_rune: "0 < utf8_len s \<Longrightarrow> utf8_valid (take (utf8_len s) s)"
proof -
  assume n0: "0 < utf8_len s"
  then obtain c cs where s: "s = c # cs" by (cases s) (auto simp: utf8_len_def)
  have "c \<in> set (take (utf8_len s) s)" using n0 s by (cases "utf8_len s") auto
  then have hi: "\<not> (of_char c :: nat) < 128"
    using utf8_len_high [OF refl n0] by fastforce
  have "take (utf8_len s) s \<noteq> []" using n0 s by simp
  then obtain d ds where t: "take (utf8_len s) s = d # ds" by (cases "take (utf8_len s) s") auto
  have "d = c" using t s n0 by (cases "utf8_len s") auto
  moreover have "length (take (utf8_len s) s) = utf8_len s"
    using utf8_len_high [OF refl n0] by simp
  ultimately show ?thesis using utf8_len_take [OF n0] hi t n0 by (simp add: Let_def)
qed

lemma hex_digit_ascii: "n < 16 \<Longrightarrow> (of_char (hex_digit n) :: nat) < 128"
  using less_16_cases [of n] by (auto simp: hex_digit_def)

lemma escape_byte_ascii:
  "(of_char c :: nat) < 128 \<Longrightarrow> \<forall>x \<in> set (escape_byte c). (of_char x :: nat) < 128"
  by (auto simp: escape_byte_def hex_digit_ascii)

lemma utf8_valid_escape_byte: "(of_char c :: nat) < 128 \<Longrightarrow> utf8_valid (escape_byte c)"
  by (rule utf8_valid_ascii [OF escape_byte_ascii])

lemma utf8_valid_escape_loop: "utf8_valid (escape_loop s)"
proof (induction s rule: escape_loop.induct)
  case (2 c cs)
  show ?case
  proof (cases "(of_char c :: nat) < 128")
    case True
    then show ?thesis using "2.IH"(1) by (simp add: utf8_valid_append utf8_valid_escape_byte)
  next
    case False
    define n where "n = utf8_len (c # cs)"
    show ?thesis
    proof (cases "n = 0")
      case True
      then show ?thesis using "2.IH"(2) [OF False n_def] False
        by (simp add: n_def [symmetric] utf8_valid_append ufffd_def)
    next
      case n0: False
      have IH: "utf8_valid (escape_loop (drop n (c # cs)))"
        using "2.IH"(3) [OF False n_def n0] "2.IH"(4) [OF False n_def n0] "2.IH"(5) [OF False n_def n0]
        by blast
      have r: "utf8_valid (take n (c # cs))" using utf8_valid_rune [of "c # cs"] n0 by (simp add: n_def)
      show ?thesis using False n0 IH r
        by (simp add: n_def [symmetric] Let_def utf8_valid_append)
    qed
  qed
qed simp

lemma utf8_valid_quote_string: "utf8_valid (quote_string s)"
  by (simp add: quote_string_def utf8_valid_append utf8_valid_escape_loop)

lemma utf8_valid_join_comma: "\<forall>x \<in> set xs. utf8_valid x \<Longrightarrow> utf8_valid (join_comma xs)"
  by (induction xs rule: join_comma.induct) (auto simp: utf8_valid_append)

text \<open>
  C19. Every JSON text \<open>json.Marshal\<close> produces from the values of the model is valid
  UTF-8, whatever bytes its strings hold: invalid bytes become the escape of U+FFFD,
  ASCII is escaped to ASCII and only complete runes are copied.
\<close>

theorem marshal_utf8_valid: "utf8_valid (marshal j)"
proof (induction j rule: marshal.induct)
  case (4 kvs)
  have "\<forall>x \<in> set (map (\<lambda>(k, v). quote_string k @ '':'' @ marshal v) kvs). utf8_valid x"
    using "4.IH" by (auto simp: utf8_valid_append utf8_valid_quote_string)
  then show ?case by (simp add: utf8_valid_append utf8_valid_join_comma)
qed (auto simp: utf8_valid_append utf8_valid_join_comma utf8_valid_quote_string)

lemma escape_byte_length: "1 \<le> length (escape_byte c) \<and> length (escape_byte c) \<le> 6"
  by (simp add: escape_byte_def)

text \<open>
  C20. Bounds of the string encoder: the escaped text is never shorter than the input
  and at most six times as long (one byte becomes at most a six-byte escape, an invalid
  byte six, a three-byte line separator six).
\<close>

theorem escape_loop_length:
  "length s \<le> length (escape_loop s) \<and> length (escape_loop s) \<le> 6 * length s"
proof (induction s rule: escape_loop.induct)
  case (2 c cs)
  show ?case
  proof (cases "(of_char c :: nat) < 128")
    case True
    then show ?thesis using "2.IH"(1) escape_byte_length [of c] by simp
  next
    case False
    define n where "n = utf8_len (c # cs)"
    show ?thesis
    proof (cases "n = 0")
      case True
      then show ?thesis using "2.IH"(2) [OF False n_def] False
        by (simp add: n_def [symmetric] ufffd_def)
    next
      case n0: False
      have IH: "length (drop n (c # cs)) \<le> length (escape_loop (drop n (c # cs))) \<and>
                length (escape_loop (drop n (c # cs))) \<le> 6 * length (drop n (c # cs))"
        using "2.IH"(3) [OF False n_def n0] "2.IH"(4) [OF False n_def n0] "2.IH"(5) [OF False n_def n0]
        by blast
      have le: "n \<le> length (c # cs)" using utf8_len_high [OF n_def [symmetric]] n0 by simp
      have ls: "take n (c # cs) = line_sep d \<Longrightarrow> n = 3" for d
        using le by (metis length_take min.absorb2 line_sep_def length_Cons list.size(3) numeral_3_eq_3)
      show ?thesis using False n0 IH le ls
        by (auto simp: n_def [symmetric] Let_def)
    qed
  qed
qed simp

end
