(* ===== verification/GoPath.thy ===== *)
theory GoPath
  imports Prelude
begin

text \<open>
  Go's \<open>path\<close> package as gin and net/http use it for this server: \<open>path.Clean\<close>,
  \<open>path.Join\<close> of two elements, and gin's \<open>joinPaths\<close> (utils.go), which builds
  every route path of main.go from its group's base path. \<open>path_clean\<close> states
  \<open>Clean\<close> over the slash-separated elements.
\<close>

fun split_on :: "char \<Rightarrow> string \<Rightarrow> string list" where
  "split_on d [] = [[]]"
| "split_on d (c # cs) =
     (if c = d then [] # split_on d cs
      else (case split_on d cs of [] \<Rightarrow> [[c]] | w # ws \<Rightarrow> (c # w) # ws))"

fun join_slash :: "string list \<Rightarrow> string" where
  "join_slash [] = []"
| "join_slash [x] = x"
| "join_slash (x # xs) = x @ ''/'' @ join_slash xs"

text \<open>
  Go's \<open>path.Clean\<close>: drop empty and \<open>.\<close> elements, let \<open>..\<close> remove the
  element before it (or vanish at the root), no trailing slash, \<open>.\<close> for the empty path.
\<close>

definition clean_step :: "bool \<Rightarrow> string \<Rightarrow> string list \<Rightarrow> string list" where
  "clean_step rooted e acc =
     (if e = [] \<or> e = ''.'' then acc
      else if e = ''..'' then
        (if acc \<noteq> [] \<and> last acc \<noteq> ''..'' then butlast acc
         else if rooted then acc else acc @ [''..''])
      else acc @ [e])"

definition path_clean :: "string \<Rightarrow> string" where
  "path_clean p =
     (let rooted = (p \<noteq> [] \<and> hd p = CHR ''/'');
          out = fold (clean_step rooted) (split_on (CHR ''/'') p) [];
          res = (if rooted then ''/'' else []) @ join_slash out
      in if res = [] then ''.'' else res)"

text \<open>\<open>path.Join(a, b)\<close> for two elements.\<close>

definition path_join :: "string \<Rightarrow> string \<Rightarrow> string" where
  "path_join a b =
     (if a = [] then (if b = [] then [] else path_clean b) else path_clean (a @ ''/'' @ b))"

text \<open>\<open>joinPaths\<close> of gin's utils.go: keep a trailing slash of the relative path.\<close>

definition join_paths :: "string \<Rightarrow> string \<Rightarrow> string" where
  "join_paths absolute relative =
     (if relative = [] then absolute
      else (let final = path_join absolute relative in
            if last relative = CHR ''/'' \<and> last final \<noteq> CHR ''/'' then final @ ''/'' else final))"

subsection \<open>Splitting and joining\<close>

lemma split_on_not_Nil [simp]: "split_on d s \<noteq> []"
  by (induction s) (auto split: list.splits)

lemma split_on_no_delim [simp]: "d \<notin> set s \<Longrightarrow> split_on d s = [s]"
  by (induction s) auto

lemma split_on_delim_append [simp]:
  "d \<notin> set a \<Longrightarrow> split_on d (a @ d # b) = a # split_on d b"
  by (induction a) auto

lemma join_slash_Cons: "xs \<noteq> [] \<Longrightarrow> join_slash (x # xs) = x @ ''/'' @ join_slash xs"
  by (cases xs) auto

lemma join_slash_Cons_hd [simp]: "join_slash ((c # a) # xs) = c # join_slash (a # xs)"
  by (cases xs) auto

lemma join_split_on [simp]: "join_slash (split_on (CHR ''/'') s) = s"
proof (induction s)
  case (Cons c cs)
  then show ?case
    by (cases "split_on (CHR ''/'') cs") (auto simp: join_slash_Cons)
qed simp

lemma split_on_no_delim_elems: "x \<in> set (split_on d s) \<Longrightarrow> d \<notin> set x"
  by (induction s arbitrary: x) (auto split: if_splits list.splits)

lemma split_on_join_slash:
  "acc \<noteq> [] \<Longrightarrow> \<forall>e \<in> set acc. CHR ''/'' \<notin> set e \<Longrightarrow> split_on (CHR ''/'') (join_slash acc) = acc"
  by (induction acc rule: join_slash.induct) auto

lemma split_on_snoc_delim: "split_on d (xs @ [d]) = split_on d xs @ [[]]"
  by (induction xs) (auto split: list.splits)

lemma set_join_slash: "set (join_slash xs) \<subseteq> insert (CHR ''/'') (\<Union>e \<in> set xs. set e)"
  by (induction xs rule: join_slash.induct) auto

lemma split_on_elem_set: "e \<in> set (split_on d s) \<Longrightarrow> set e \<subseteq> set s"
proof (induction s arbitrary: e)
  case (Cons c cs)
  show ?case
  proof (cases "c = d")
    case False
    then obtain w ws where sp: "split_on d cs = w # ws" and e: "e = c # w \<or> e \<in> set ws"
      using Cons.prems by (auto split: list.splits)
    have "set w \<subseteq> set cs" "\<forall>x \<in> set ws. set x \<subseteq> set cs" using Cons.IH sp by auto
    then show ?thesis using e by auto
  qed (use Cons in auto)
qed simp

lemma hd_last_no_slash:
  "x \<noteq> [] \<Longrightarrow> CHR ''/'' \<notin> set x \<Longrightarrow> hd x \<noteq> CHR ''/'' \<and> last x \<noteq> CHR ''/''"
  using hd_in_set last_in_set by metis

lemma join_slash_elems:
  "acc \<noteq> [] \<Longrightarrow> \<forall>e \<in> set acc. e \<noteq> [] \<and> CHR ''/'' \<notin> set e \<Longrightarrow>
   join_slash acc \<noteq> [] \<and> hd (join_slash acc) \<noteq> CHR ''/'' \<and> last (join_slash acc) \<noteq> CHR ''/''"
proof (induction acc rule: join_slash.induct)
  case (2 x)
  then show ?case using hd_last_no_slash [of x] by simp
next
  case (3 x y zs)
  have x: "x \<noteq> []" "CHR ''/'' \<notin> set x" using 3(3) by auto
  have "join_slash (x # y # zs) = x @ ''/'' @ join_slash (y # zs)" by simp
  moreover have "join_slash (y # zs) \<noteq> [] \<and> last (join_slash (y # zs)) \<noteq> CHR ''/''" using 3 by simp
  ultimately show ?case using hd_last_no_slash [OF x] x(1) by simp
qed simp

end
