(* ===== verification/NetUrl.thy ===== *)
theory NetUrl
  imports GoPath "HOL-Library.Char_ord"
begin

text \<open>
  The parts of Go's \<open>net/url\<close> that \<open>http.Redirect\<close> and gin's trailing-slash
  redirect go through: \<open>URL.EscapedPath\<close> (\<open>escape\<close> in \<open>encodePath\<close> mode), the
  scheme and host that \<open>url.Parse\<close> finds, and the errors of \<open>url.Parse\<close> that
  depend on the text of a path; \<open>path.Split\<close> of Go's \<open>path\<close> package; and the URL
  rewrite of \<open>http.Redirect\<close>. The lemmas show that an escaped absolute path holds
  only printable ASCII without \<open>?\<close> or \<open>#\<close>, parses without scheme and host, and
  is rewritten to its \<open>path.Clean\<close> (with a trailing slash kept).
\<close>

definition upper_hex :: "nat \<Rightarrow> char" where
  "upper_hex n = ''0123456789ABCDEF'' ! n"

definition is_alpha :: "char \<Rightarrow> bool" where
  "is_alpha c \<longleftrightarrow> (CHR ''a'' \<le> c \<and> c \<le> CHR ''z'') \<or> (CHR ''A'' \<le> c \<and> c \<le> CHR ''Z'')"

definition is_digit :: "char \<Rightarrow> bool" where
  "is_digit c \<longleftrightarrow> CHR ''0'' \<le> c \<and> c \<le> CHR ''9''"

text \<open>\<open>shouldEscape(c, encodePath)\<close>: letters, digits, \<open>-_.~\<close> and the reserved bytes a
  path may hold are kept; \<open>?\<close> and every other byte is escaped.\<close>

definition should_escape_path :: "char \<Rightarrow> bool" where
  "should_escape_path c \<longleftrightarrow>
     \<not> (is_alpha c \<or> is_digit c \<or> c \<in> set ''-_.~$&+,/:;=@'')"

text \<open>\<open>escape(s, encodePath)\<close>: a byte to escape becomes \<open>%\<close> and two upper-case hex digits.\<close>

definition esc_chunk :: "char \<Rightarrow> string" where
  "esc_chunk c = (if should_escape_path c
                  then [CHR ''%'', upper_hex (of_char c div 16), upper_hex (of_char c mod 16)] else [c])"

definition escape_path :: "string \<Rightarrow> string" where
  "escape_path s = concat (map esc_chunk s)"

text \<open>\<open>getScheme\<close>: \<open>None\<close> for the error of a leading colon.\<close>

definition scheme_char :: "char \<Rightarrow> bool" where
  "scheme_char c \<longleftrightarrow> is_alpha c \<or> is_digit c \<or> c = CHR ''+'' \<or> c = CHR ''-'' \<or> c = CHR ''.''"

definition get_scheme :: "string \<Rightarrow> (string \<times> string) option" where
  "get_scheme u =
     (case u of
        [] \<Rightarrow> Some ([], u)
      | c # _ \<Rightarrow>
          if c = CHR '':'' then None
          else if \<not> is_alpha c then Some ([], u)
          else (let n = length (takeWhile scheme_char u) in
                if n < length u \<and> u ! n = CHR '':'' then Some (take n u, drop (Suc n) u)
                else Some ([], u)))"

definition is_hex :: "char \<Rightarrow> bool" where
  "is_hex c \<longleftrightarrow> is_digit c \<or> (CHR ''a'' \<le> c \<and> c \<le> CHR ''f'') \<or> (CHR ''A'' \<le> c \<and> c \<le> CHR ''F'')"

text \<open>\<open>unescape\<close> accepts a text when every \<open>%\<close> is followed by two hex digits.\<close>

fun valid_escapes :: "string \<Rightarrow> bool" where
  "valid_escapes [] = True"
| "valid_escapes (c # cs) =
     (if c = CHR ''%'' then
        (case cs of a # b # rest \<Rightarrow> is_hex a \<and> is_hex b \<and> valid_escapes rest | _ \<Rightarrow> False)
      else valid_escapes cs)"

text \<open>
  \<open>unhex\<close> and the decoding loop of \<open>unescape(s, encodePath)\<close>: after the check
  that every \<open>%\<close> has two hex digits, a text without \<open>%\<close> is returned as it is
  and any other is decoded byte by byte (\<open>+\<close> stays \<open>+\<close> in a path). The
  decoder's case of a \<open>%\<close> without two following bytes is never reached after the
  check; it keeps the byte.
\<close>

definition unhex :: "char \<Rightarrow> nat" where
  "unhex c = (case hex_val c of Some n \<Rightarrow> n | None \<Rightarrow> 0)"

fun unescape_bytes :: "string \<Rightarrow> string" where
  "unescape_bytes [] = []"
| "unescape_bytes (c # cs) =
     (if c = CHR ''%'' then
        (case cs of a # b # rest \<Rightarrow> char_of (unhex a * 16 + unhex b) # unescape_bytes rest
         | _ \<Rightarrow> c # unescape_bytes cs)
      else c # unescape_bytes cs)"

definition path_unescape :: "string \<Rightarrow> string option" where
  "path_unescape s =
     (if \<not> valid_escapes s then None
      else if CHR ''%'' \<notin> set s then Some s
      else Some (unescape_bytes s))"

definition has_ctl :: "string \<Rightarrow> bool" where
  "has_ctl s \<longleftrightarrow> (\<exists>c \<in> set s. of_char c < (32::nat) \<or> of_char c = (127::nat))"

text \<open>
  \<open>url.Parse\<close>, as far as \<open>http.Redirect\<close> looks at its result: \<open>None\<close> for an error,
  else the scheme and the host. The fragment is cut first; the authority after
  \<open>//\<close> gives the host after its user information (the validation of the host itself
  by \<open>parseHost\<close> is not modelled).
\<close>

definition url_parse :: "string \<Rightarrow> (string \<times> string) option" where
  "url_parse raw =
     (let u = takeWhile (\<lambda>c. c \<noteq> CHR ''#'') raw;
          frag = drop 1 (dropWhile (\<lambda>c. c \<noteq> CHR ''#'') raw)
      in if has_ctl u then None
         else (case get_scheme u of
                 None \<Rightarrow> None
               | Some (scheme, rest0) \<Rightarrow>
                   (let rest = (if rest0 \<noteq> [] \<and> last rest0 = CHR ''?'' \<and> length (filter (\<lambda>c. c = CHR ''?'') rest0) = 1
                                then butlast rest0 else takeWhile (\<lambda>c. c \<noteq> CHR ''?'') rest0)
                    in if \<not> (rest \<noteq> [] \<and> hd rest = CHR ''/'') \<and> scheme \<noteq> [] then Some (scheme, [])
                       else if \<not> (rest \<noteq> [] \<and> hd rest = CHR ''/'') \<and>
                               CHR '':'' \<in> set (takeWhile (\<lambda>c. c \<noteq> CHR ''/'') rest) then None
                       else
                         (let auth = (scheme \<noteq> [] \<or> take 3 rest \<noteq> ''///'') \<and> take 2 rest = ''//'';
                              authority = takeWhile (\<lambda>c. c \<noteq> CHR ''/'') (drop 2 rest);
                              path = (if auth then dropWhile (\<lambda>c. c \<noteq> CHR ''/'') (drop 2 rest) else rest);
                              host = (if auth then rev (takeWhile (\<lambda>c. c \<noteq> CHR ''@'') (rev authority)) else [])
                          in if valid_escapes path \<and> valid_escapes frag then Some (scheme, host) else None))))"

text \<open>\<open>path.Split\<close>: the directory part, up to and including the last slash.\<close>

definition path_dir :: "string \<Rightarrow> string" where
  "path_dir p = rev (dropWhile (\<lambda>c. c \<noteq> CHR ''/'') (rev p))"

text \<open>\<open>path.Clean\<close> in \<open>http.Redirect\<close>, with a trailing slash of the input kept.\<close>

definition clean_trailing :: "string \<Rightarrow> string" where
  "clean_trailing u =
     (let trailing = (u \<noteq> [] \<and> last u = CHR ''/'');
          c = path_clean u
      in if trailing \<and> \<not> (c \<noteq> [] \<and> last c = CHR ''/'') then c @ ''/'' else c)"

text \<open>
  What \<open>http.Redirect\<close> does to its \<open>url\<close> argument before writing it: when it parses
  without scheme and host, a relative path is made absolute against the directory of
  the request path, the query is set aside, the path is cleaned by \<open>path.Clean\<close> with
  a trailing slash kept, and the query put back.
\<close>

definition redirect_url :: "string \<Rightarrow> string \<Rightarrow> string" where
  "redirect_url oldpath url =
     (case url_parse url of
        Some (scheme, host) \<Rightarrow>
          if scheme = [] \<and> host = [] then
            (let old = (if oldpath = [] then ''/'' else oldpath);
                 url1 = (if url = [] \<or> hd url \<noteq> CHR ''/'' then path_dir old @ url else url);
                 u = takeWhile (\<lambda>c. c \<noteq> CHR ''?'') url1;
                 query = dropWhile (\<lambda>c. c \<noteq> CHR ''?'') url1;
                 c' = clean_trailing u
             in c' @ query)
          else url
      | None \<Rightarrow> url)"

subsection \<open>Escaped absolute paths\<close>

lemma escape_path_simps [simp]: "escape_path [] = []" "escape_path (c # s) = esc_chunk c @ escape_path s"
  by (simp_all add: escape_path_def)

lemma upper_hex_props: "n < 16 \<Longrightarrow> is_hex (upper_hex n) \<and> of_char (upper_hex n) < (128::nat) \<and>
    upper_hex n \<noteq> CHR ''?'' \<and> upper_hex n \<noteq> CHR ''#'' \<and> 48 \<le> (of_char (upper_hex n) :: nat) \<and> (of_char (upper_hex n) :: nat) \<le> 70"
  using less_16_cases [of n] by (auto simp: upper_hex_def is_hex_def is_digit_def)

lemma esc_chunk_chars:
  "x \<in> set (esc_chunk c) \<Longrightarrow> x \<noteq> CHR ''?'' \<and> x \<noteq> CHR ''#'' \<and> of_char x < (128::nat) \<and>
     \<not> (of_char x < (32::nat) \<or> of_char x = (127::nat))"
proof -
  assume x: "x \<in> set (esc_chunk c)"
  show ?thesis
  proof (cases "should_escape_path c")
    case True
    have d: "of_char c div 16 < (16::nat)" "of_char c mod 16 < (16::nat)"
      using of_char_less_256 [of c] by linarith+
    show ?thesis using True x upper_hex_props [OF d(1)] upper_hex_props [OF d(2)] by (auto simp: esc_chunk_def)
  next
    case False
    then have "x = c" and k: "is_alpha c \<or> is_digit c \<or> c \<in> set ''-_.~$&+,/:;=@''"
      using x by (auto simp: esc_chunk_def should_escape_path_def)
    then show ?thesis using k by (auto simp: is_alpha_def is_digit_def less_eq_char_def)
  qed
qed

lemma escape_path_chars:
  "x \<in> set (escape_path s) \<Longrightarrow> x \<noteq> CHR ''?'' \<and> x \<noteq> CHR ''#'' \<and> of_char x < (128::nat) \<and>
     \<not> (of_char x < (32::nat) \<or> of_char x = (127::nat))"
  by (induction s) (auto dest: esc_chunk_chars)

lemma valid_escapes_chunk: "valid_escapes (esc_chunk c @ t) = valid_escapes t"
proof (cases "should_escape_path c")
  case True
  have d: "of_char c div 16 < (16::nat)" "of_char c mod 16 < (16::nat)"
    using of_char_less_256 [of c] by linarith+
  then show ?thesis using True upper_hex_props [OF d(1)] upper_hex_props [OF d(2)]
    by (simp add: esc_chunk_def)
next
  case False
  then have "c \<noteq> CHR ''%''" by (auto simp: should_escape_path_def is_alpha_def is_digit_def)
  then show ?thesis using False by (simp add: esc_chunk_def)
qed

lemma valid_escapes_escape_path: "valid_escapes (escape_path s)"
  by (induction s) (simp_all add: valid_escapes_chunk)

lemma esc_chunk_hd: "c \<noteq> CHR ''/'' \<Longrightarrow> \<exists>x xs. esc_chunk c = x # xs \<and> x \<noteq> CHR ''/''"
  by (auto simp: esc_chunk_def)

lemma esc_chunk_slash [simp]: "esc_chunk (CHR ''/'') = ''/''"
  by (simp add: esc_chunk_def should_escape_path_def)

lemma url_parse_abs_path:
  assumes ne: "v \<noteq> []" and h: "hd v = CHR ''/''"
    and ch: "\<forall>x \<in> set v. x \<noteq> CHR ''?'' \<and> x \<noteq> CHR ''#''"
    and ctl: "\<not> has_ctl v" and sch: "get_scheme v = Some ([], v)"
    and t2: "take 2 v \<noteq> ''//''" and ve: "valid_escapes v"
  shows "url_parse v = Some ([], [])"
proof -
  have tw: "takeWhile (\<lambda>c. c \<noteq> CHR ''#'') v = v" "takeWhile (\<lambda>c. c \<noteq> CHR ''?'') v = v"
    using ch by (simp_all add: takeWhile_eq_all_conv)
  have dw: "dropWhile (\<lambda>c. c \<noteq> CHR ''#'') v = []" using ch by (simp add: dropWhile_eq_Nil_conv)
  have "last v \<in> set v" using ne by (rule last_in_set)
  then have lq: "\<not> (last v = CHR ''?'')" using ch by blast
  show ?thesis
    unfolding url_parse_def Let_def tw(1) dw
    by (simp only: ctl sch if_False option.case prod.case lq simp_thms tw(2))
       (simp add: ne h t2 ve)
qed

lemma url_parse_escaped:
  assumes "t = [] \<or> hd t \<noteq> CHR ''/''"
  shows "url_parse (escape_path (CHR ''/'' # t)) = Some ([], [])"
proof (rule url_parse_abs_path)
  let ?u = "escape_path (CHR ''/'' # t)"
  have u: "?u = CHR ''/'' # escape_path t" by simp
  show "?u \<noteq> []" "hd ?u = CHR ''/''" by simp_all
  have ch: "\<forall>x \<in> set ?u. x \<noteq> CHR ''?'' \<and> x \<noteq> CHR ''#'' \<and> \<not> (of_char x < (32::nat) \<or> of_char x = (127::nat))"
    using escape_path_chars by blast
  then show "\<forall>x \<in> set ?u. x \<noteq> CHR ''?'' \<and> x \<noteq> CHR ''#''" by blast
  show "\<not> has_ctl ?u" using ch by (simp add: has_ctl_def)
  have na: "\<not> is_alpha (CHR ''/'')" by (simp add: is_alpha_def less_eq_char_def)
  show "get_scheme ?u = Some ([], ?u)"
    by (simp only: u) (simp add: get_scheme_def na del: escape_path_simps)
  show "take 2 ?u \<noteq> ''//''"
  proof (cases t)
    case (Cons c cs)
    then have "c \<noteq> CHR ''/''" using assms by simp
    then obtain x xs where "esc_chunk c = x # xs" "x \<noteq> CHR ''/''" using esc_chunk_hd by blast
    then show ?thesis using Cons by (simp add: numeral_2_eq_2)
  qed simp
  show "valid_escapes ?u" by (rule valid_escapes_escape_path)
qed

lemma redirect_url_abs_path:
  assumes p: "url_parse v = Some ([], [])" and ne: "v \<noteq> []" "hd v = CHR ''/''"
    and ch: "\<forall>x \<in> set v. x \<noteq> CHR ''?''"
  shows "redirect_url old v = clean_trailing v"
proof -
  have tw: "takeWhile (\<lambda>c. c \<noteq> CHR ''?'') v = v" and dw: "dropWhile (\<lambda>c. c \<noteq> CHR ''?'') v = []"
    using ch by (simp_all add: takeWhile_eq_all_conv dropWhile_eq_Nil_conv)
  show ?thesis
    unfolding redirect_url_def p Let_def using ne by (simp add: tw dw)
qed

lemma redirect_url_escaped:
  assumes "t = [] \<or> hd t \<noteq> CHR ''/''"
  shows "redirect_url old (escape_path (CHR ''/'' # t)) = clean_trailing (escape_path (CHR ''/'' # t))"
proof (rule redirect_url_abs_path [OF url_parse_escaped [OF assms]])
  show "escape_path (CHR ''/'' # t) \<noteq> []" "hd (escape_path (CHR ''/'' # t)) = CHR ''/''" by simp_all
  show "\<forall>x \<in> set (escape_path (CHR ''/'' # t)). x \<noteq> CHR ''?''" using escape_path_chars by blast
qed

declare escape_path_simps [simp del]

subsection \<open>Escaping and unescaping\<close>

lemma unhex_upper_hex [simp]: "n < 16 \<Longrightarrow> unhex (upper_hex n) = n"
  by (drule less_16_cases) (auto simp: unhex_def hex_val_def upper_hex_def)

lemma unescape_bytes_chunk: "unescape_bytes (esc_chunk c @ t) = c # unescape_bytes t"
proof (cases "should_escape_path c")
  case True
  have d: "of_char c div 16 < (16::nat)" "of_char c mod 16 < (16::nat)"
    using of_char_less_256 [of c] by linarith+
  have "char_of (of_char c div 16 * 16 + of_char c mod 16 :: nat) = c" by simp
  then show ?thesis using True d by (simp add: esc_chunk_def)
next
  case False
  then have "c \<noteq> CHR ''%''" by (auto simp: should_escape_path_def is_alpha_def is_digit_def)
  then show ?thesis using False by (simp add: esc_chunk_def)
qed

lemma unescape_bytes_escape_path: "unescape_bytes (escape_path s) = s"
  by (induction s) (simp_all add: escape_path_simps unescape_bytes_chunk)

lemma unescape_bytes_no_pct: "CHR ''%'' \<notin> set s \<Longrightarrow> unescape_bytes s = s"
  by (induction s) auto

lemma escape_path_append: "escape_path (a @ b) = escape_path a @ escape_path b"
  by (simp add: escape_path_def)

lemma escape_path_inj: "escape_path a = escape_path b \<longleftrightarrow> a = b"
  by (metis unescape_bytes_escape_path)

lemma upper_hex_not_slash: "n < 16 \<Longrightarrow> upper_hex n \<noteq> CHR ''/''"
proof
  assume n: "n < 16" and "upper_hex n = CHR ''/''"
  then have "(of_char (upper_hex n) :: nat) = 47" by simp
  then show False using upper_hex_props [OF n] by simp
qed

lemma esc_chunk_no_slash: "c \<noteq> CHR ''/'' \<Longrightarrow> CHR ''/'' \<notin> set (esc_chunk c)"
proof -
  assume c: "c \<noteq> CHR ''/''"
  have d: "of_char c div 16 < (16::nat)" "of_char c mod 16 < (16::nat)"
    using of_char_less_256 [of c] by linarith+
  show ?thesis
    using c upper_hex_not_slash [OF d(1)] upper_hex_not_slash [OF d(2)] by (auto simp: esc_chunk_def)
qed

lemma split_on_prepend: "d \<notin> set a \<Longrightarrow> split_on d (a @ x) = (a @ hd (split_on d x)) # tl (split_on d x)"
proof (induction a)
  case Nil
  then show ?case by (cases "split_on d x") simp_all
next
  case (Cons c a)
  then have "c \<noteq> d" "d \<notin> set a" by auto
  then show ?case using Cons.IH by (simp split: list.splits)
qed

lemma split_on_escape_path:
  "split_on (CHR ''/'') (escape_path s) = map escape_path (split_on (CHR ''/'') s)"
proof (induction s)
  case Nil
  then show ?case by (simp add: escape_path_def)
next
  case (Cons c cs)
  show ?case
  proof (cases "c = CHR ''/''")
    case True
    then show ?thesis using Cons by (simp add: escape_path_simps)
  next
    case False
    obtain w ws where sp: "split_on (CHR ''/'') cs = w # ws" by (cases "split_on (CHR ''/'') cs") auto
    have "split_on (CHR ''/'') (escape_path (c # cs)) = (esc_chunk c @ escape_path w) # map escape_path ws"
      using Cons sp split_on_prepend [OF esc_chunk_no_slash [OF False]] by (simp add: escape_path_simps)
    then show ?thesis using False sp by (simp add: escape_path_simps)
  qed
qed

lemma escape_path_join_slash: "escape_path (join_slash xs) = join_slash (map escape_path xs)"
  by (induction xs rule: join_slash.induct) (simp_all add: escape_path_append escape_path_simps)

lemma escape_path_dots [simp]:
  "escape_path [] = []" "escape_path ''.'' = ''.''" "escape_path ''..'' = ''..''" "escape_path ''/'' = ''/''"
  by (simp_all add: escape_path_def esc_chunk_def should_escape_path_def)

lemma escape_path_eq_dots:
  "escape_path e = [] \<longleftrightarrow> e = []" "escape_path e = ''.'' \<longleftrightarrow> e = ''.''" "escape_path e = ''..'' \<longleftrightarrow> e = ''..''"
  using escape_path_inj [of e "[]"] escape_path_inj [of e "''.''"] escape_path_inj [of e "''..''"] by simp_all

lemma clean_step_escape:
  "map escape_path (clean_step r e acc) = clean_step r (escape_path e) (map escape_path acc)"
  by (cases "acc = []") (simp_all add: clean_step_def escape_path_eq_dots last_map map_butlast escape_path_inj)

lemma fold_clean_escape:
  "map escape_path (fold (clean_step r) es acc) = fold (clean_step r) (map escape_path es) (map escape_path acc)"
  by (induction es arbitrary: acc) (simp_all add: clean_step_escape)

lemma hd_escape_path_slash: "escape_path p \<noteq> [] \<and> hd (escape_path p) = CHR ''/'' \<longleftrightarrow> p \<noteq> [] \<and> hd p = CHR ''/''"
proof (cases p)
  case (Cons c cs)
  show ?thesis
  proof (cases "c = CHR ''/''")
    case False
    then obtain x xs where "esc_chunk c = x # xs" "x \<noteq> CHR ''/''" using esc_chunk_hd by blast
    then show ?thesis using Cons False by (simp add: escape_path_simps)
  qed (simp add: Cons escape_path_simps)
qed simp

lemma path_clean_escape_path: "path_clean (escape_path p) = escape_path (path_clean p)"
proof -
  define r where "r = (p \<noteq> [] \<and> hd p = CHR ''/'')"
  have r': "(escape_path p \<noteq> [] \<and> hd (escape_path p) = CHR ''/'') = r" using hd_escape_path_slash r_def by simp
  define out where "out = fold (clean_step r) (split_on (CHR ''/'') p) []"
  have o: "fold (clean_step r) (split_on (CHR ''/'') (escape_path p)) [] = map escape_path out"
    unfolding out_def split_on_escape_path fold_clean_escape by simp
  have j: "(if r then ''/'' else []) @ join_slash (map escape_path out) =
           escape_path ((if r then ''/'' else []) @ join_slash out)"
    by (simp add: escape_path_append escape_path_join_slash)
  show ?thesis
    unfolding path_clean_def Let_def r' o j
    by (simp add: r_def [symmetric] out_def [symmetric] escape_path_eq_dots)
qed

lemma esc_chunk_last: "esc_chunk c \<noteq> [] \<and> (last (esc_chunk c) = CHR ''/'' \<longleftrightarrow> c = CHR ''/'')"
proof -
  have d: "of_char c mod 16 < (16::nat)" using of_char_less_256 [of c] by linarith
  show ?thesis using upper_hex_not_slash [OF d]
    by (auto simp: esc_chunk_def should_escape_path_def)
qed

lemma last_escape_path_slash:
  "escape_path x \<noteq> [] \<and> last (escape_path x) = CHR ''/'' \<longleftrightarrow> x \<noteq> [] \<and> last x = CHR ''/''"
proof (induction x rule: rev_induct)
  case (snoc c xs)
  have "escape_path (xs @ [c]) = escape_path xs @ esc_chunk c"
    by (simp add: escape_path_append escape_path_simps)
  then show ?case using esc_chunk_last [of c] by simp
qed simp

lemma clean_trailing_escape_path: "clean_trailing (escape_path u) = escape_path (clean_trailing u)"
  unfolding clean_trailing_def Let_def path_clean_escape_path last_escape_path_slash
  by (simp add: escape_path_append)

text \<open>
  C27. Round trip of path escaping: \<open>unescape\<close> in path mode gives back every string
  that \<open>escape(s, encodePath)\<close> wrote, so a path printed by \<open>URL.String\<close> reaches
  a Go server's router as the same path.
\<close>

theorem path_unescape_escape_path: "path_unescape (escape_path s) = Some s"
proof (cases "CHR ''%'' \<in> set (escape_path s)")
  case True
  then show ?thesis by (simp add: path_unescape_def valid_escapes_escape_path unescape_bytes_escape_path)
next
  case False
  then have e: "escape_path s = s" using unescape_bytes_no_pct unescape_bytes_escape_path by metis
  have "path_unescape (escape_path s) = Some (escape_path s)"
    using False valid_escapes_escape_path [of s] by (simp add: path_unescape_def)
  then show ?thesis using e by simp
qed


end
