(* ===== verification/Gin.thy ===== *)
theory Gin
  imports Json NetUrl
begin

text \<open>
  The part of gin and net/http that the handlers of main.go drive: gin's
  \<open>responseWriter\<close> (status, size, headers) over net/http's response, and the
  \<open>gin.Context\<close> methods \<open>Status\<close>, \<open>JSON\<close> and \<open>Redirect\<close> the handlers call.
  Every write to the response is an operation of the datatype \<open>wop\<close>, and a
  handler's effect on the response is a run of such operations. Once net/http has been
  handed the status line and headers (\<open>w_sent\<close>) they never change again; this
  is the invariant the theory proves for every run.
\<close>

subsection \<open>HTTP constants used by main.go\<close>

abbreviation StatusOK :: int where "StatusOK \<equiv> 200"
abbreviation StatusCreated :: int where "StatusCreated \<equiv> 201"
abbreviation StatusNoContent :: int where "StatusNoContent \<equiv> 204"
abbreviation StatusMovedPermanently :: int where "StatusMovedPermanently \<equiv> 301"
abbreviation StatusTemporaryRedirect :: int where "StatusTemporaryRedirect \<equiv> 307"
abbreviation StatusNotFound :: int where "StatusNotFound \<equiv> 404"
abbreviation StatusInternalServerError :: int where "StatusInternalServerError \<equiv> 500"

text \<open>\<open>http.StatusText\<close> for the codes this server can answer with.\<close>

definition status_text :: "int \<Rightarrow> string" where
  "status_text code =
     (if code = 200 then ''OK'' else if code = 201 then ''Created''
      else if code = 204 then ''No Content'' else if code = 301 then ''Moved Permanently''
      else if code = 307 then ''Temporary Redirect'' else if code = 404 then ''Not Found''
      else if code = 500 then ''Internal Server Error'' else [])"

definition jsonContentType :: string where
  "jsonContentType = ''application/json; charset=utf-8''"

definition htmlContentType :: string where
  "htmlContentType = ''text/html; charset=utf-8''"

definition plainContentType :: string where
  "plainContentType = ''text/plain''"

subsection \<open>Headers\<close>

text \<open>\<open>Header.Set\<close>: the key's values are replaced by the one value.\<close>

definition header_set :: "string \<Rightarrow> string \<Rightarrow> header \<Rightarrow> header" where
  "header_set k v h = (k, v) # filter (\<lambda>p. fst p \<noteq> k) h"

definition header_has :: "header \<Rightarrow> string \<Rightarrow> bool" where
  "header_has h k \<longleftrightarrow> map_of h k \<noteq> None"

subsection \<open>gin's responseWriter\<close>

record writer =
  w_status :: int
  w_size :: int
  w_header :: header
  w_sent :: "(int \<times> header) option"
  w_body :: string

text \<open>\<open>responseWriter.reset\<close>: status 200, size \<open>noWritten = -1\<close>, fresh net/http response.\<close>

definition writer_reset :: writer where
  "writer_reset = \<lparr>w_status = 200, w_size = -1, w_header = [], w_sent = None, w_body = []\<rparr>"

definition written :: "writer \<Rightarrow> bool" where
  "written w \<longleftrightarrow> w_size w \<noteq> -1"

datatype wop =
    WriteHeader int
  | WriteHeaderNow
  | Write string
  | SetHeader string string
  | SetContentType string

text \<open>
  \<open>WriteHeader\<close> changes the pending status unless the header is already out (gin only
  prints a warning then); \<open>WriteHeaderNow\<close> hands status and headers to net/http once;
  \<open>Write\<close> does that first and appends the bytes; \<open>SetContentType\<close> is
  \<open>writeContentType\<close> of gin's render package, which sets the header only when absent.
  Headers changed after the header is out do not reach the client.
\<close>

definition write_header_now :: "writer \<Rightarrow> writer" where
  "write_header_now w =
     (if \<not> written w then w\<lparr>w_size := 0, w_sent := Some (w_status w, w_header w)\<rparr> else w)"

fun wstep :: "writer \<Rightarrow> wop \<Rightarrow> writer" where
  "wstep w (WriteHeader code) =
     (if 0 < code \<and> w_status w \<noteq> code \<and> \<not> written w then w\<lparr>w_status := code\<rparr> else w)"
| "wstep w WriteHeaderNow = write_header_now w"
| "wstep w (Write data) =
     (let w' = write_header_now w
      in w'\<lparr>w_body := w_body w' @ data, w_size := w_size w' + int (length data)\<rparr>)"
| "wstep w (SetHeader k v) = w\<lparr>w_header := header_set k v (w_header w)\<rparr>"
| "wstep w (SetContentType v) =
     (if header_has (w_header w) ''Content-Type'' then w
      else w\<lparr>w_header := header_set ''Content-Type'' v (w_header w)\<rparr>)"

definition wrun :: "writer \<Rightarrow> wop list \<Rightarrow> writer" where
  "wrun w ops = fold (\<lambda>op w. wstep w op) ops w"

text \<open>The response the client receives: the status line and headers handed over, and the body.\<close>

record http_response =
  resp_status :: int
  resp_header :: header
  resp_body :: string

definition response_of :: "writer \<Rightarrow> http_response option" where
  "response_of w =
     (case w_sent w of None \<Rightarrow> None
      | Some (st, h) \<Rightarrow> Some \<lparr>resp_status = st, resp_header = h, resp_body = w_body w\<rparr>)"

subsection \<open>gin.Context\<close>

record request =
  req_method :: string
  req_path :: string
  req_body :: string

record ctx =
  c_request :: request
  c_params :: "(string \<times> string) list"
  c_writer :: writer

definition c_run :: "wop list \<Rightarrow> ctx \<Rightarrow> ctx" where
  "c_run ops c = c\<lparr>c_writer := wrun (c_writer c) ops\<rparr>"

text \<open>\<open>bodyAllowedForStatus\<close> of gin's context.go.\<close>

definition body_allowed :: "int \<Rightarrow> bool" where
  "body_allowed code \<longleftrightarrow> \<not> (100 \<le> code \<and> code \<le> 199) \<and> code \<noteq> 204 \<and> code \<noteq> 304"

text \<open>\<open>c.Status(code)\<close>.\<close>

definition c_Status :: "int \<Rightarrow> ctx \<Rightarrow> ctx" where
  "c_Status code = c_run [WriteHeader code]"

text \<open>
  \<open>c.JSON(code, obj)\<close> is \<open>c.Render(code, render.JSON{obj})\<close>: set the status;
  without a body only the content type is set and the header sent, otherwise
  \<open>WriteJSON\<close> sets the content type and writes \<open>json.Marshal(obj)\<close>.
  \<open>json.Marshal\<close> cannot fail on the values main.go passes (strings, slices,
  string maps), so the error branch of \<open>Render\<close> is not reached and not modelled.
\<close>

definition c_JSON :: "int \<Rightarrow> json \<Rightarrow> ctx \<Rightarrow> ctx" where
  "c_JSON code obj c =
     (if body_allowed code
      then c_run [WriteHeader code, SetContentType jsonContentType, Write (marshal obj)] c
      else c_run [WriteHeader code, SetContentType jsonContentType, WriteHeaderNow] c)"

text \<open>\<open>htmlEscape\<close> and \<open>hexEscapeNonASCII\<close> of net/http, used by \<open>http.Redirect\<close>.\<close>

definition html_escape_char :: "char \<Rightarrow> string" where
  "html_escape_char ch =
     (if ch = CHR ''&'' then ''&amp;'' else if ch = CHR ''<'' then ''&lt;''
      else if ch = CHR ''>'' then ''&gt;'' else if ch = dquote then ''&#34;''
      else if ch = CHR 0x27 then ''&#39;'' else [ch])"

definition html_escape :: "string \<Rightarrow> string" where
  "html_escape s = concat (map html_escape_char s)"

definition hex_escape_non_ascii :: "string \<Rightarrow> string" where
  "hex_escape_non_ascii s =
     concat (map (\<lambda>ch. if (of_char ch :: nat) < 128 then [ch]
                        else [CHR ''%'', hex_digit (of_char ch div 16), hex_digit (of_char ch mod 16)]) s)"

text \<open>
  \<open>http.Redirect(w, r, url, code)\<close>: rewrite \<open>url\<close> (\<open>redirect_url\<close>, against
  the request path), set \<open>Location\<close>; when no content type was set, a GET or HEAD
  gets an HTML content type and a GET the short HTML body (written with
  \<open>fmt.Fprintln\<close>).
\<close>

definition redirect_ops :: "header \<Rightarrow> string \<Rightarrow> string \<Rightarrow> string \<Rightarrow> int \<Rightarrow> wop list" where
  "redirect_ops h meth oldpath url0 code =
     (let hadCT = header_has h ''Content-Type''; url = redirect_url oldpath url0 in
      [SetHeader ''Location'' (hex_escape_non_ascii url)]
      @ (if \<not> hadCT \<and> (meth = ''GET'' \<or> meth = ''HEAD'')
         then [SetHeader ''Content-Type'' htmlContentType] else [])
      @ [WriteHeader code]
      @ (if \<not> hadCT \<and> meth = ''GET''
         then [Write (''<a href=\"'' @ html_escape url @ ''\">'' @ status_text code @ ''</a>.''
                      @ [CHR 0x0A, CHR 0x0A])]
         else []))"

text \<open>
  gin.Default installs the Recovery middleware: a handler that panics is answered with
  \<open>c.AbortWithStatus(500)\<close>, i.e. status 500 and the header sent (a status already
  sent stays).
\<close>

definition recover_500 :: "ctx \<Rightarrow> ctx" where
  "recover_500 = c_run [WriteHeader StatusInternalServerError, WriteHeaderNow]"

text \<open>
  \<open>c.Redirect(code, location)\<close> is \<open>c.Render(-1, render.Redirect{...})\<close>:
  \<open>c.Status(-1)\<close> changes nothing, then \<open>Redirect.Render\<close> panics on a code
  outside 300..308 other than 201, and calls \<open>http.Redirect\<close> otherwise.
\<close>

definition c_Redirect :: "int \<Rightarrow> string \<Rightarrow> ctx \<Rightarrow> ctx" where
  "c_Redirect code location c =
     (let c1 = c_run [WriteHeader (-1)] c in
      if (code < 300 \<or> 308 < code) \<and> code \<noteq> 201 then recover_500 c1
      else c_run (redirect_ops (w_header (c_writer c1)) (req_method (c_request c1)) (req_path (c_request c1))
                  location code) c1)"

text \<open>
  \<open>engine.ServeHTTP\<close> takes a pooled context and resets it: a fresh writer, the
  request, and the path parameters the router found.
\<close>

definition new_ctx :: "request \<Rightarrow> (string \<times> string) list \<Rightarrow> ctx" where
  "new_ctx req params = \<lparr>c_request = req, c_params = params, c_writer = writer_reset\<rparr>"

text \<open>
  After the handler chain returns, \<open>handleHTTPRequest\<close> calls
  \<open>c.writermem.WriteHeaderNow()\<close>; the client then sees \<open>response_of\<close>.
\<close>

definition run_handler :: "(ctx \<Rightarrow> ctx) \<Rightarrow> request \<Rightarrow> (string \<times> string) list \<Rightarrow> http_response option" where
  "run_handler h req params = response_of (write_header_now (c_writer (h (new_ctx req params))))"

subsection \<open>The writer invariant\<close>

text \<open>
  The status is positive; before the header is out nothing has been written and
  \<open>size = -1\<close>; after it, the status sent is the writer's status and \<open>size\<close> counts
  the body.
\<close>

definition wf_writer :: "writer \<Rightarrow> bool" where
  "wf_writer w \<longleftrightarrow> 0 < w_status w \<and>
     (case w_sent w of
        None \<Rightarrow> w_size w = -1 \<and> w_body w = []
      | Some (st, h) \<Rightarrow> st = w_status w \<and> w_size w = int (length (w_body w)))"

inductive writer_reach :: "writer \<Rightarrow> bool" where
  reset: "writer_reach writer_reset"
| step: "writer_reach w \<Longrightarrow> writer_reach (wstep w op)"

text \<open>
  A handler that touches the response only through writer operations: from a reachable
  writer it leaves a reachable writer. Every context method above is one.
\<close>

definition writer_handler :: "(ctx \<Rightarrow> ctx) \<Rightarrow> bool" where
  "writer_handler h \<longleftrightarrow> (\<forall>c. writer_reach (c_writer c) \<longrightarrow> writer_reach (c_writer (h c)))"

lemma wf_writer_reset [simp]: "wf_writer writer_reset"
  by (simp add: wf_writer_def writer_reset_def)

lemma wf_written: "wf_writer w \<Longrightarrow> written w \<longleftrightarrow> w_sent w \<noteq> None"
  by (auto simp: wf_writer_def written_def split: option.splits)

lemma wf_write_header_now: "wf_writer w \<Longrightarrow> wf_writer (write_header_now w)"
  by (auto simp: wf_writer_def write_header_now_def written_def split: option.splits)

lemma wstep_wf: "wf_writer w \<Longrightarrow> wf_writer (wstep w op)"
proof (cases op)
  case (Write data)
  assume wf: "wf_writer w"
  then have "wf_writer (write_header_now w)" by (rule wf_write_header_now)
  moreover have "w_sent (write_header_now w) \<noteq> None"
    using wf by (auto simp: write_header_now_def wf_written)
  ultimately show ?thesis using Write
    by (auto simp: wf_writer_def Let_def split: option.splits)
qed (auto simp: wf_writer_def written_def write_header_now_def split: option.splits)

text \<open>
  C14. Invariant of gin's responseWriter: in every state reachable from
  \<open>reset\<close> by writer operations the status is positive, \<open>size\<close> is -1 exactly while
  nothing has been handed to net/http, the status sent is the writer's status and
  \<open>size\<close> counts the body bytes.
\<close>

theorem writer_reach_wf: "writer_reach w \<Longrightarrow> wf_writer w"
  by (induction rule: writer_reach.induct) (auto intro: wstep_wf)

lemma wstep_sent_final: "wf_writer w \<Longrightarrow> w_sent w = Some x \<Longrightarrow> w_sent (wstep w op) = Some x"
  by (cases op) (auto simp: wf_written write_header_now_def Let_def)

lemma wrun_Nil [simp]: "wrun w [] = w"
  by (simp add: wrun_def)

lemma wrun_Cons [simp]: "wrun w (op # ops) = wrun (wstep w op) ops"
  by (simp add: wrun_def)

lemma wrun_append: "wrun w (xs @ ys) = wrun (wrun w xs) ys"
  by (simp add: wrun_def)

lemma wrun_wf: "wf_writer w \<Longrightarrow> wf_writer (wrun w ops)"
  by (induction ops arbitrary: w) (auto intro: wstep_wf)

lemma wrun_reach: "writer_reach w \<Longrightarrow> writer_reach (wrun w ops)"
  by (induction ops arbitrary: w) (auto intro: writer_reach.step)

text \<open>
  C15. Once the status line and headers are handed to net/http they stay as they are,
  whatever the handler does afterwards (a later \<open>c.Status\<close> only prints gin's warning).
\<close>

theorem wrun_sent_final: "wf_writer w \<Longrightarrow> w_sent w = Some x \<Longrightarrow> w_sent (wrun w ops) = Some x"
  by (induction ops arbitrary: w) (auto intro: wstep_wf wstep_sent_final)

lemma c_run_writer [simp]: "c_writer (c_run ops c) = wrun (c_writer c) ops"
  by (simp add: c_run_def)

lemma c_run_request [simp]: "c_request (c_run ops c) = c_request c"
  by (simp add: c_run_def)

lemma new_ctx_simps [simp]:
  "c_writer (new_ctx req ps) = writer_reset" "c_request (new_ctx req ps) = req"
  by (simp_all add: new_ctx_def)

subsection \<open>Every handler run answers\<close>

lemma c_run_writer_handler: "writer_handler (c_run ops)"
  by (simp add: writer_handler_def wrun_reach)

lemma c_JSON_writer_handler: "writer_handler (c_JSON code obj)"
  by (simp add: writer_handler_def c_JSON_def wrun_reach del: wrun_Cons)

lemma c_Status_writer_handler: "writer_handler (c_Status code)"
  by (simp add: c_Status_def c_run_writer_handler)

lemma c_Redirect_writer_handler: "writer_handler (c_Redirect code loc)"
  by (simp add: writer_handler_def c_Redirect_def recover_500_def Let_def wrun_reach del: wrun_Cons)

lemma write_header_now_sent:
  "wf_writer w \<Longrightarrow> \<exists>h. w_sent (write_header_now w) = Some (w_status w, h)"
  by (auto simp: wf_writer_def write_header_now_def written_def split: option.splits)

lemma response_of_write_header_now:
  assumes "wf_writer w"
  shows "\<exists>r. response_of (write_header_now w) = Some r \<and> resp_status r = w_status w \<and>
             resp_body r = w_body w"
proof -
  obtain h where "w_sent (write_header_now w) = Some (w_status w, h)"
    using write_header_now_sent [OF assms] by blast
  moreover have "w_body (write_header_now w) = w_body w" by (simp add: write_header_now_def)
  ultimately show ?thesis by (simp add: response_of_def)
qed

lemma wrun_reset_wf: "wf_writer (wrun writer_reset ops)"
  by (rule wrun_wf [OF wf_writer_reset])

lemma writer_handler_wf: "writer_handler h \<Longrightarrow> wf_writer (c_writer (h (new_ctx req ps)))"
  using writer_reach.reset by (auto simp: writer_handler_def intro: writer_reach_wf)

text \<open>
  C21. Liveness of the request pipeline: whatever a handler does through the writer,
  \<open>handleHTTPRequest\<close>'s final \<open>WriteHeaderNow\<close> leaves a response for the client,
  with the status the handler last set and the body it wrote.
\<close>

theorem run_handler_responds:
  assumes "writer_handler h"
  shows "\<exists>r. run_handler h req ps = Some r \<and>
             resp_status r = w_status (c_writer (h (new_ctx req ps))) \<and>
             resp_body r = w_body (c_writer (h (new_ctx req ps)))"
  unfolding run_handler_def
  by (rule response_of_write_header_now [OF writer_handler_wf [OF assms]])

subsection \<open>Responses of the context methods from a fresh context\<close>

lemma run_handler_c_JSON:
  "body_allowed code \<Longrightarrow> 0 < code \<Longrightarrow>
   run_handler (c_JSON code obj) req ps =
     Some \<lparr>resp_status = code, resp_header = [(''Content-Type'', jsonContentType)],
           resp_body = marshal obj\<rparr>"
  by (auto simp: run_handler_def c_JSON_def writer_reset_def write_header_now_def written_def
      header_set_def header_has_def response_of_def)

lemma run_handler_c_JSON_no_body:
  "\<not> body_allowed code \<Longrightarrow> 0 < code \<Longrightarrow>
   run_handler (c_JSON code obj) req ps =
     Some \<lparr>resp_status = code, resp_header = [(''Content-Type'', jsonContentType)], resp_body = []\<rparr>"
  by (auto simp: run_handler_def c_JSON_def writer_reset_def write_header_now_def written_def
      header_set_def header_has_def response_of_def)

lemma run_handler_c_Status:
  "0 < code \<Longrightarrow>
   run_handler (c_Status code) req ps =
     Some \<lparr>resp_status = code, resp_header = [], resp_body = []\<rparr>"
  by (auto simp: run_handler_def c_Status_def writer_reset_def write_header_now_def written_def
      response_of_def)

lemma run_handler_c_Redirect:
  "300 \<le> code \<Longrightarrow> code \<le> 308 \<Longrightarrow>
   run_handler (c_Redirect code loc) req ps =
     Some \<lparr>resp_status = code,
           resp_header = (if req_method req = ''GET'' \<or> req_method req = ''HEAD''
                          then [(''Content-Type'', htmlContentType),
                                (''Location'', hex_escape_non_ascii (redirect_url (req_path req) loc))]
                          else [(''Location'', hex_escape_non_ascii (redirect_url (req_path req) loc))]),
           resp_body = (if req_method req = ''GET''
                        then ''<a href=\"'' @ html_escape (redirect_url (req_path req) loc) @ ''\">''
                             @ status_text code @ ''</a>.''
                             @ [CHR 0x0A, CHR 0x0A]
                        else [])\<rparr>"
  by (auto simp: run_handler_def c_Redirect_def redirect_ops_def Let_def writer_reset_def
      write_header_now_def written_def header_set_def header_has_def response_of_def)

lemma hex_escape_ascii_id: "\<forall>c \<in> set s. of_char c < (128::nat) \<Longrightarrow> hex_escape_non_ascii s = s"
  by (induction s) (auto simp: hex_escape_non_ascii_def)

lemma redirect_ops_reset_location:
  "\<exists>resp. response_of (write_header_now (wrun writer_reset (redirect_ops [] meth old url code))) = Some resp \<and>
     map_of (resp_header resp) ''Location'' = Some (hex_escape_non_ascii (redirect_url old url))"
  by (auto simp: redirect_ops_def Let_def wrun_append writer_reset_def write_header_now_def written_def
      header_set_def header_has_def response_of_def)

subsection \<open>Witnesses\<close>

theorem writer_reach_wf_witness:
  "writer_reach (wrun writer_reset [WriteHeader 201, SetContentType jsonContentType, Write ''[]'']) \<and>
   wf_writer (wrun writer_reset [WriteHeader 201, SetContentType jsonContentType, Write ''[]''])"
proof -
  have r: "writer_reach (wrun writer_reset [WriteHeader 201, SetContentType jsonContentType, Write ''[]''])"
    by (rule wrun_reach [OF writer_reach.reset])
  show ?thesis using r writer_reach_wf [OF r] by simp
qed

theorem wrun_sent_final_witness:
  "wf_writer \<lparr>w_status = 201, w_size = 0, w_header = [], w_sent = Some (201, []), w_body = []\<rparr> \<and>
   w_sent \<lparr>w_status = 201, w_size = 0, w_header = [], w_sent = Some (201, []), w_body = []\<rparr> = Some (201, []) \<and>
   w_sent (wrun \<lparr>w_status = 201, w_size = 0, w_header = [], w_sent = Some (201, []), w_body = []\<rparr>
             [WriteHeader 404, SetHeader ''Content-Type'' plainContentType, Write ''x'']) = Some (201, [])"
proof -
  have wf: "wf_writer \<lparr>w_status = 201, w_size = 0, w_header = [], w_sent = Some (201, []), w_body = []\<rparr>"
    by (simp add: wf_writer_def)
  have st: "w_sent \<lparr>w_status = 201, w_size = 0, w_header = [], w_sent = Some (201, []), w_body = []\<rparr> = Some (201, [])"
    by simp
  show ?thesis
    using wf st wrun_sent_final [OF wf st, of "[WriteHeader 404, SetHeader ''Content-Type'' plainContentType, Write ''x'']"]
    by simp
qed

theorem run_handler_responds_witness:
  "writer_handler (c_JSON 201 (JString ''x'')) \<and>
   (\<exists>r. run_handler (c_JSON 201 (JString ''x'')) \<lparr>req_method = ''POST'', req_path = ''/gophers'', req_body = []\<rparr> [] = Some r \<and>
        resp_status r = w_status (c_writer (c_JSON 201 (JString ''x'') (new_ctx \<lparr>req_method = ''POST'', req_path = ''/gophers'', req_body = []\<rparr> []))) \<and>
        resp_body r = w_body (c_writer (c_JSON 201 (JString ''x'') (new_ctx \<lparr>req_method = ''POST'', req_path = ''/gophers'', req_body = []\<rparr> []))))"
proof -
  have wh: "writer_handler (c_JSON 201 (JString ''x''))"
    by (rule c_JSON_writer_handler)
  show ?thesis using wh run_handler_responds [OF wh] by blast
qed

end
