(* ===== verification/Router.thy ===== *)
theory Router
  imports Gin
begin

text \<open>
  gin's router as main.go uses it: route paths are joined to the group's base path
  (\<open>joinPaths\<close>, which calls Go's \<open>path.Join\<close>/\<open>path.Clean\<close>), parsed into
  segments (\<open>:name\<close> a parameter, \<open>*name\<close> a catch-all), registered one by one
  (\<open>engine.addRoute\<close>, which panics on an invalid or conflicting path; the panic is
  an \<open>Inl\<close> value here), and matched against the request path. Where several routes
  match, gin's tree prefers a static segment over a parameter over a catch-all at the
  first segment where they differ. \<open>handleHTTPRequest\<close> then runs the handler,
  redirects to the path with the trailing slash toggled when only that one has a route
  (\<open>RedirectTrailingSlash\<close>, on in \<open>gin.Default\<close>), or answers 404.
  Approximations: a wildcard must fill a whole segment (gin also accepts
  \<open>/user_:name\<close>; main.go has no such path), and the conflict rules are those of
  gin 1.8 and later stated per segment.
\<close>

type_synonym handler = "ctx \<Rightarrow> ctx"

datatype seg = Static string | Param string | CatchAll string

record route =
  rt_method :: string
  rt_path :: string
  rt_pattern :: "seg list"
  rt_handler :: handler

datatype route_error =
    PathNotAbsolute string
  | EmptyMethod
  | InvalidWildcard string
  | DuplicateRoute string
  | WildcardConflict string string

subsection \<open>Route paths\<close>

text \<open>The segments of an absolute path: the text between the slashes after the first.\<close>

definition path_segments :: "string \<Rightarrow> string list option" where
  "path_segments p =
     (case p of [] \<Rightarrow> None
      | c # rest \<Rightarrow> if c = CHR ''/'' then Some (split_on (CHR ''/'') rest) else None)"

definition parse_seg :: "string \<Rightarrow> seg" where
  "parse_seg s =
     (case s of CHR '':'' # n \<Rightarrow> Param n | CHR ''*'' # n \<Rightarrow> CatchAll n | _ \<Rightarrow> Static s)"

definition wild_name_ok :: "string \<Rightarrow> bool" where
  "wild_name_ok n \<longleftrightarrow> n \<noteq> [] \<and> CHR '':'' \<notin> set n \<and> CHR ''*'' \<notin> set n"

text \<open>
  The checks of \<open>findWildcard\<close>/\<open>insertChild\<close>: a wildcard has a non-empty name with
  no second wildcard in its segment, and a catch-all comes last.
\<close>

fun valid_pattern :: "seg list \<Rightarrow> bool" where
  "valid_pattern [] = True"
| "valid_pattern (Static s # ps) = valid_pattern ps"
| "valid_pattern (Param n # ps) = (wild_name_ok n \<and> valid_pattern ps)"
| "valid_pattern (CatchAll n # ps) = (wild_name_ok n \<and> ps = [])"

subsection \<open>Registration: \<open>engine.addRoute\<close>\<close>

text \<open>
  Two patterns of the same method conflict when, at the first segment where they
  differ, both are parameters with different names, or one is a catch-all. A static
  segment beside a parameter is allowed.
\<close>

fun wild_conflict :: "seg list \<Rightarrow> seg list \<Rightarrow> bool" where
  "wild_conflict (Static a # ps) (Static b # qs) = (a = b \<and> wild_conflict ps qs)"
| "wild_conflict (Param a # ps) (Param b # qs) = (a \<noteq> b \<or> wild_conflict ps qs)"
| "wild_conflict (CatchAll a # ps) (CatchAll b # qs) = (a \<noteq> b \<or> wild_conflict ps qs)"
| "wild_conflict (CatchAll a # ps) (q # qs) = True"
| "wild_conflict (p # ps) (CatchAll b # qs) = True"
| "wild_conflict ps qs = False"

definition add_route ::
  "route list \<Rightarrow> string \<Rightarrow> string \<Rightarrow> handler \<Rightarrow> route_error + route list" where
  "add_route rs meth path h =
     (case path_segments path of
        None \<Rightarrow> Inl (PathNotAbsolute path)
      | Some segs \<Rightarrow>
          (let pat = map parse_seg segs;
               same = filter (\<lambda>r. rt_method r = meth) rs in
           if meth = [] then Inl EmptyMethod
           else if \<not> valid_pattern pat then Inl (InvalidWildcard path)
           else if \<exists>r \<in> set same. rt_pattern r = pat then Inl (DuplicateRoute path)
           else (case filter (\<lambda>r. wild_conflict pat (rt_pattern r)) same of
                   r # _ \<Rightarrow> Inl (WildcardConflict path (rt_path r))
                 | [] \<Rightarrow> Inr (rs @ [\<lparr>rt_method = meth, rt_path = path, rt_pattern = pat,
                                     rt_handler = h\<rparr>]))))"

text \<open>Registrations run in order; the first panic ends \<open>main\<close>.\<close>

fun add_routes ::
  "route list \<Rightarrow> (string \<times> string \<times> handler) list \<Rightarrow> route_error + route list" where
  "add_routes rs [] = Inr rs"
| "add_routes rs ((m, p, h) # regs) =
     (case add_route rs m p h of Inl e \<Rightarrow> Inl e | Inr rs' \<Rightarrow> add_routes rs' regs)"

subsection \<open>Matching: \<open>node.getValue\<close>\<close>

text \<open>
  A parameter takes one non-empty segment; a catch-all takes the rest of the path
  with its leading slash (\<open>/swagger/*any\<close> on \<open>/swagger/index.html\<close> gives
  \<open>any = /index.html\<close>).
\<close>

fun match_segs :: "seg list \<Rightarrow> string list \<Rightarrow> (string \<times> string) list option" where
  "match_segs [] [] = Some []"
| "match_segs (Static a # ps) (x # xs) = (if a = x then match_segs ps xs else None)"
| "match_segs (Param n # ps) (x # xs) =
     (if x = [] then None else map_option (\<lambda>vs. (n, x) # vs) (match_segs ps xs))"
| "match_segs (CatchAll n # ps) xs =
     (if ps = [] \<and> xs \<noteq> [] then Some [(n, ''/'' @ join_slash xs)] else None)"
| "match_segs ps xs = None"

text \<open>
  The walk of gin's \<open>getValue\<close> when it only looks for a trailing-slash recommendation:
  a parameter segment may then be empty (the \<open>tsr = len(path) == end+1\<close> case of the
  parameter node, reached for \<open>/gophers//\<close>).
\<close>

fun match_loose :: "seg list \<Rightarrow> string list \<Rightarrow> bool" where
  "match_loose [] [] = True"
| "match_loose (Static a # ps) (x # xs) = (a = x \<and> match_loose ps xs)"
| "match_loose (Param n # ps) (x # xs) = match_loose ps xs"
| "match_loose (CatchAll n # ps) xs = (ps = [] \<and> xs \<noteq> [])"
| "match_loose ps xs = False"

fun seg_rank :: "seg \<Rightarrow> nat" where
  "seg_rank (Static s) = 2"
| "seg_rank (Param n) = 1"
| "seg_rank (CatchAll n) = 0"

definition matches :: "route list \<Rightarrow> string \<Rightarrow> string \<Rightarrow> (route \<times> (string \<times> string) list) list" where
  "matches rs meth path =
     (case path_segments path of
        None \<Rightarrow> []
      | Some xs \<Rightarrow>
          concat (map (\<lambda>r. if rt_method r = meth
                           then (case match_segs (rt_pattern r) xs of
                                   None \<Rightarrow> [] | Some ps \<Rightarrow> [(r, ps)])
                           else []) rs))"

text \<open>The matching route of highest priority, with its parameters.\<close>

definition lookup :: "route list \<Rightarrow> string \<Rightarrow> string \<Rightarrow> (handler \<times> (string \<times> string) list) option" where
  "lookup rs meth path =
     (case rev (sort_key (\<lambda>(r, ps). map seg_rank (rt_pattern r)) (matches rs meth path)) of
        [] \<Rightarrow> None
      | (r, ps) # _ \<Rightarrow> Some (rt_handler r, ps))"

subsection \<open>\<open>engine.handleHTTPRequest\<close>\<close>

datatype dispatch =
    Dispatch handler "(string \<times> string) list"
  | TrailingSlashRedirect string int
  | NoRoute

text \<open>\<open>redirectTrailingSlash\<close>: remove a trailing slash, or add one.\<close>

definition toggle_slash :: "string \<Rightarrow> string" where
  "toggle_slash p = (if 1 < length p \<and> last p = CHR ''/'' then butlast p else p @ ''/'')"

text \<open>
  \<open>value.tsr\<close> of gin's tree lookup for a path that has no route: a path ending in a
  slash has a route once the slash is removed (a final parameter may be empty there);
  any other path has a route once a slash is added.
\<close>

definition tsr :: "route list \<Rightarrow> string \<Rightarrow> string \<Rightarrow> bool" where
  "tsr rs meth path =
     (if 1 < length path \<and> last path = CHR ''/'' then
        (case path_segments (butlast path) of
           None \<Rightarrow> False
         | Some xs \<Rightarrow> filter (\<lambda>r. rt_method r = meth \<and> match_loose (rt_pattern r) xs) rs \<noteq> [])
      else lookup rs meth (path @ ''/'') \<noteq> None)"

definition dispatch :: "route list \<Rightarrow> string \<Rightarrow> string \<Rightarrow> dispatch" where
  "dispatch rs meth path =
     (case lookup rs meth path of
        Some (h, ps) \<Rightarrow> Dispatch h ps
      | None \<Rightarrow>
          (if meth \<noteq> ''CONNECT'' \<and> path \<noteq> ''/'' \<and> tsr rs meth path
           then TrailingSlashRedirect (toggle_slash path)
                  (if meth = ''GET'' then StatusMovedPermanently else StatusTemporaryRedirect)
           else NoRoute))"

text \<open>
  The response to a request: the handler's, completed by \<open>WriteHeaderNow\<close>; the
  trailing-slash redirect written by \<open>http.Redirect\<close> on a fresh writer; or
  \<open>serveError(c, 404, "404 page not found")\<close> with a plain-text body.
\<close>

definition default404Body :: string where
  "default404Body = ''404 page not found''"

definition handle_request :: "route list \<Rightarrow> request \<Rightarrow> http_response option" where
  "handle_request rs req =
     (case dispatch rs (req_method req) (req_path req) of
        Dispatch h ps \<Rightarrow> run_handler h req ps
      | TrailingSlashRedirect loc code \<Rightarrow>
          response_of (write_header_now (wrun writer_reset
            (redirect_ops [] (req_method req) loc (escape_path loc) code)))
      | NoRoute \<Rightarrow>
          response_of (wrun writer_reset
            [WriteHeader StatusNotFound, SetHeader ''Content-Type'' plainContentType,
             Write default404Body]))"

subsection \<open>Path lemmas\<close>

lemma path_segments_slash [simp]: "path_segments (CHR ''/'' # rest) = Some (split_on (CHR ''/'') rest)"
  by (simp add: path_segments_def)


subsection \<open>Matching lemmas\<close>

lemma path_segments_Some:
  "path_segments p = Some xs \<Longrightarrow> p = CHR ''/'' # join_slash xs \<and> (\<forall>x \<in> set xs. CHR ''/'' \<notin> set x)"
  by (auto simp: path_segments_def split: list.splits if_splits dest: split_on_no_delim_elems)

lemma match_loose_static: "match_loose [Static a] xs \<longleftrightarrow> xs = [a]"
  by (cases xs; cases "tl xs") auto

lemma match_loose_static_param: "match_loose [Static a, Param n] xs \<longleftrightarrow> (\<exists>x. xs = [a, x])"
  by (cases xs; cases "tl xs"; cases "tl (tl xs)") auto

lemma match_loose_static_catchall:
  "match_loose [Static a, CatchAll n] xs \<longleftrightarrow> (\<exists>rest. xs = a # rest \<and> rest \<noteq> [])"
  by (cases xs) auto

lemma match_static: "match_segs [Static a] xs = Some ps \<longleftrightarrow> xs = [a] \<and> ps = []"
  by (cases xs; cases "tl xs") (auto split: if_splits)

lemma match_param: "match_segs [Param n] xs = Some ps \<longleftrightarrow> (\<exists>x. xs = [x] \<and> x \<noteq> [] \<and> ps = [(n, x)])"
  by (cases xs; cases "tl xs") (auto split: if_splits)

lemma match_static_param:
  "match_segs [Static a, Param n] xs = Some ps \<longleftrightarrow> (\<exists>x. xs = [a, x] \<and> x \<noteq> [] \<and> ps = [(n, x)])"
  by (cases xs) (auto simp: match_param split: if_splits)

lemma match_static_catchall:
  "match_segs [Static a, CatchAll n] xs = Some ps \<longleftrightarrow>
     (\<exists>rest. xs = a # rest \<and> rest \<noteq> [] \<and> ps = [(n, ''/'' @ join_slash rest)])"
  by (cases xs) (auto split: if_splits)

lemma lookup_SomeD:
  assumes "lookup rs m p = Some (h, ps)"
  shows "\<exists>r xs. r \<in> set rs \<and> rt_method r = m \<and> rt_handler r = h \<and>
           path_segments p = Some xs \<and> match_segs (rt_pattern r) xs = Some ps"
proof -
  obtain r rest where sorted: "rev (sort_key (\<lambda>(r, ps). map seg_rank (rt_pattern r)) (matches rs m p))
      = (r, ps) # rest" and "rt_handler r = h"
    using assms by (auto simp: lookup_def split: list.splits)
  then have "(r, ps) \<in> set (matches rs m p)"
    by (metis list.set_intros(1) set_rev set_sort)
  then show ?thesis using \<open>rt_handler r = h\<close>
    by (force simp: matches_def split: option.splits if_splits)
qed


lemma matches_no_method: "\<forall>r \<in> set rs. rt_method r \<noteq> m \<Longrightarrow> matches rs m p = []"
  by (induction rs) (auto simp: matches_def split: option.splits)

lemma lookup_no_method: "\<forall>r \<in> set rs. rt_method r \<noteq> m \<Longrightarrow> lookup rs m p = None"
  by (simp add: lookup_def matches_no_method)

lemma tsr_no_method: "\<forall>r \<in> set rs. rt_method r \<noteq> m \<Longrightarrow> \<not> tsr rs m p"
  by (auto simp: tsr_def lookup_no_method filter_empty_conv split: option.splits)

lemma route_abs_first_seg:
  assumes shape: "rt_pattern r = [Static []] \<or> (case rt_pattern r of Static a # _ \<Rightarrow> a \<noteq> [] | _ \<Rightarrow> False)"
    and seg: "path_segments p = Some xs"
    and mt: "match_segs (rt_pattern r) xs \<noteq> None \<or> match_loose (rt_pattern r) xs"
  shows "\<exists>t. p = CHR ''/'' # t \<and> (t = [] \<or> hd t \<noteq> CHR ''/'')"
proof -
  from seg have p: "p = CHR ''/'' # join_slash xs" and nd: "\<forall>x \<in> set xs. CHR ''/'' \<notin> set x"
    by (auto dest: path_segments_Some)
  have st: "\<exists>a pat. a \<noteq> [] \<and> sp = Static a # pat"
    if "case sp of Static a # _ \<Rightarrow> a \<noteq> [] | _ \<Rightarrow> False" for sp
    using that by (auto split: list.splits seg.splits)
  from shape consider "rt_pattern r = [Static []]" | a pat where "a \<noteq> []" "rt_pattern r = Static a # pat"
    using st by blast
  then show ?thesis
  proof cases
    case 1
    then have "xs = [[]]" using mt by (cases xs; cases "tl xs") (auto split: if_splits)
    then have "p = ''/''" using p by simp
    then show ?thesis by simp
  next
    case (2 a pat)
    then obtain xs' where xs: "xs = a # xs'" using mt by (cases xs) (auto split: if_splits)
    obtain c a' where a: "a = c # a'" using 2(1) by (cases a) auto
    have "c \<noteq> CHR ''/''" using nd xs a by auto
    then show ?thesis using p xs a by simp
  qed
qed

lemma lookup_abs_first_seg:
  assumes lk: "lookup rs m p = Some (h, ps)"
    and shape: "\<forall>r \<in> set rs. rt_pattern r = [Static []] \<or> (case rt_pattern r of Static a # _ \<Rightarrow> a \<noteq> [] | _ \<Rightarrow> False)"
  shows "\<exists>t. p = CHR ''/'' # t \<and> (t = [] \<or> hd t \<noteq> CHR ''/'')"
proof -
  obtain r xs where r: "r \<in> set rs" and seg: "path_segments p = Some xs"
    and mt: "match_segs (rt_pattern r) xs = Some ps"
    using lookup_SomeD [OF lk] by blast
  show ?thesis using route_abs_first_seg [OF _ seg] shape r mt by blast
qed

text \<open>The target of a trailing-slash redirect is a slash followed by a non-empty first element.\<close>

lemma tsr_abs_first_seg:
  assumes t: "tsr rs m p"
    and shape: "\<forall>r \<in> set rs. rt_pattern r = [Static []] \<or> (case rt_pattern r of Static a # _ \<Rightarrow> a \<noteq> [] | _ \<Rightarrow> False)"
  shows "\<exists>t. toggle_slash p = CHR ''/'' # t \<and> (t = [] \<or> hd t \<noteq> CHR ''/'')"
proof (cases "1 < length p \<and> last p = CHR ''/''")
  case True
  then obtain xs where seg: "path_segments (butlast p) = Some xs"
    and f: "filter (\<lambda>r. rt_method r = m \<and> match_loose (rt_pattern r) xs) rs \<noteq> []"
    using t by (auto simp: tsr_def split: option.splits)
  then obtain r where "r \<in> set rs" "match_loose (rt_pattern r) xs" by (auto simp: filter_empty_conv)
  then have "\<exists>t. butlast p = CHR ''/'' # t \<and> (t = [] \<or> hd t \<noteq> CHR ''/'')"
    using route_abs_first_seg [OF _ seg] shape by blast
  then show ?thesis unfolding toggle_slash_def if_P [OF True] .
next
  case False
  then have "lookup rs m (p @ ''/'') \<noteq> None" using t by (simp add: tsr_def)
  then obtain h ps where lk: "lookup rs m (p @ ''/'') = Some (h, ps)" by auto
  show ?thesis unfolding toggle_slash_def if_not_P [OF False] using lookup_abs_first_seg [OF lk shape] .
qed

lemma lookup_matchI:
  assumes "r \<in> set rs" "rt_method r = m" "path_segments p = Some xs" "match_segs (rt_pattern r) xs = Some ps"
  shows "lookup rs m p \<noteq> None"
proof -
  have "(r, ps) \<in> set (matches rs m p)" using assms by (force simp: matches_def)
  then have "matches rs m p \<noteq> []" by auto
  then have "rev (sort_key (\<lambda>(r, ps). map seg_rank (rt_pattern r)) (matches rs m p)) \<noteq> []"
    by (metis length_0_conv length_rev length_sort)
  then show ?thesis by (auto simp: lookup_def split: list.splits)
qed

lemma dispatch_lookup: "lookup rs m p \<noteq> None \<Longrightarrow> \<exists>h ps. dispatch rs m p = Dispatch h ps"
  by (auto simp: dispatch_def)

subsection \<open>Every request is answered\<close>

lemma handle_request_responds:
  assumes "\<forall>r \<in> set rs. writer_handler (rt_handler r)"
  shows "\<exists>resp. handle_request rs req = Some resp"
proof (cases "dispatch rs (req_method req) (req_path req)")
  case (Dispatch h ps)
  then have "lookup rs (req_method req) (req_path req) = Some (h, ps)"
    by (auto simp: dispatch_def split: option.splits if_splits)
  then have "writer_handler h" using assms by (auto dest: lookup_SomeD)
  then show ?thesis using Dispatch response_of_write_header_now [OF writer_handler_wf]
    by (simp add: handle_request_def run_handler_def) blast
next
  case (TrailingSlashRedirect loc code)
  then show ?thesis using response_of_write_header_now [OF wrun_reset_wf]
    by (simp add: handle_request_def) blast
next
  case NoRoute
  then show ?thesis
    by (simp add: handle_request_def writer_reset_def write_header_now_def written_def response_of_def)
qed

end
