(* ===== verification/Gopher.thy ===== *)
theory Gopher
  imports Json
begin

text \<open>
  The one entity of main.go, \<open>type Gopher struct\<close> (lines 52-56), its zero value
  \<open>Gopher{}\<close> that every handler answers with, and its JSON form under the struct
  tags \<open>json:"id"\<close> and \<open>json:"name"\<close> (fields in declaration order).
\<close>

record gopher =
  ID :: string
  Name :: string

definition gopher_zero :: gopher where
  "gopher_zero = \<lparr>ID = [], Name = []\<rparr>"

definition gopher_json :: "gopher \<Rightarrow> json" where
  "gopher_json g = JObject [(''id'', JString (ID g)), (''name'', JString (Name g))]"

text \<open>A client's reading of that JSON: the two fields in the order Go writes them.\<close>

definition decode_gopher :: "gopher parser" where
  "decode_gopher s =
     (case expect ''{\"id\":'' s of None \<Rightarrow> None | Some (_, s1) \<Rightarrow>
      case parse_string s1 of None \<Rightarrow> None | Some (i, s2) \<Rightarrow>
      case expect '',\"name\":'' s2 of None \<Rightarrow> None | Some (_, s3) \<Rightarrow>
      case parse_string s3 of None \<Rightarrow> None | Some (n, s4) \<Rightarrow>
      case expect ''}'' s4 of None \<Rightarrow> None | Some (_, s5) \<Rightarrow> Some (\<lparr>ID = i, Name = n\<rparr>, s5))"

definition decode_gopher_array :: "gopher list parser" where
  "decode_gopher_array = decode_list decode_gopher CHR ''['' CHR '']''"

lemma marshal_gopher_json:
  "marshal (gopher_json g) =
     ''{\"id\":'' @ quote_string (ID g) @ '',\"name\":'' @ quote_string (Name g) @ ''}''"
  by (simp add: gopher_json_def quote_string_def html_safe_def)

lemma decode_gopher_marshal:
  "utf8_valid (ID g) \<Longrightarrow> utf8_valid (Name g) \<Longrightarrow> decode_gopher (marshal (gopher_json g) @ r) = Some (g, r)"
  by (simp add: marshal_gopher_json decode_gopher_def parse_string_def quote_string_def
      str_body_escape_loop)

lemma marshal_gopher_array:
  "marshal (JArray (map gopher_json gs)) = CHR ''['' # join_comma (map (\<lambda>g. marshal (gopher_json g)) gs) @ '']''"
  by (simp add: comp_def)

text \<open>
  C13. Round trip of the gopher JSON the handlers write (\<open>Gopher\<close> and
  \<open>[]Gopher\<close>): a client decoding the array that \<open>c.JSON\<close> writes for a list of
  gophers gets every id and name back, in order, when they are valid UTF-8.
\<close>

theorem decode_gopher_array_json:
  assumes "\<forall>g \<in> set gs. utf8_valid (ID g) \<and> utf8_valid (Name g)"
  shows "decode_gopher_array (marshal (JArray (map gopher_json gs)) @ r) = Some (gs, r)"
proof -
  have p: "\<forall>g \<in> set gs. \<forall>r. decode_gopher (marshal (gopher_json g) @ r) = Some (g, r)"
    using assms by (auto intro: decode_gopher_marshal)
  have c: "\<forall>g \<in> set gs. \<exists>c t. marshal (gopher_json g) = c # t \<and> c \<noteq> CHR '']''"
    by (simp add: marshal_gopher_json)
  show ?thesis
    unfolding marshal_gopher_array
    using decode_list_join [OF p c, of "CHR ''[''" r]
    by (simp add: decode_gopher_array_def)
qed

theorem decode_gopher_array_json_witness:
  "utf8_valid ''1'' \<and> utf8_valid ''Gopher'' \<and> utf8_valid ''2'' \<and> utf8_valid ''a\"b'' \<and>
   decode_gopher_array (marshal (JArray (map gopher_json [\<lparr>ID = ''1'', Name = ''Gopher''\<rparr>,
      \<lparr>ID = ''2'', Name = ''a\"b''\<rparr>])) @ []) = Some ([\<lparr>ID = ''1'', Name = ''Gopher''\<rparr>, \<lparr>ID = ''2'', Name = ''a\"b''\<rparr>], [])"
proof -
  have v: "\<forall>g \<in> set [\<lparr>ID = ''1'', Name = ''Gopher''\<rparr>, \<lparr>ID = ''2'', Name = ''a\"b''\<rparr>].
      utf8_valid (ID g) \<and> utf8_valid (Name g)" by simp
  show ?thesis using v decode_gopher_array_json [OF v, of "[]"] by simp
qed

end
