(* ===== verification/Handlers.thy ===== *)
theory Handlers
  imports Gopher Gin
begin

text \<open>
  The handlers of main.go, each a function on the \<open>gin.Context\<close>: the five
  \<open>/gophers\<close> handlers (lines 67-122), \<open>HealthCheck\<close> (lines 132-134) and the
  anonymous handler of \<open>/\<close> (lines 30-32). The CRUD handlers are the stubs of the
  source (\<open>// TODO: Implement this\<close>): they read neither the body nor the path
  parameter and write a fixed answer. Each lemma below gives the exact response a
  client receives, for every request and every path parameter.
\<close>

definition CreateGopher :: "ctx \<Rightarrow> ctx" where
  "CreateGopher c = c_JSON StatusCreated (gopher_json gopher_zero) c"

definition GetGophers :: "ctx \<Rightarrow> ctx" where
  "GetGophers c = c_JSON StatusOK (JArray (map gopher_json [])) c"

definition GetGopherByID :: "ctx \<Rightarrow> ctx" where
  "GetGopherByID c = c_JSON StatusOK (gopher_json gopher_zero) c"

definition UpdateGopher :: "ctx \<Rightarrow> ctx" where
  "UpdateGopher c = c_JSON StatusOK (gopher_json gopher_zero) c"

definition DeleteGopher :: "ctx \<Rightarrow> ctx" where
  "DeleteGopher c = c_Status StatusNoContent c"

definition HealthCheck :: "ctx \<Rightarrow> ctx" where
  "HealthCheck c = c_JSON StatusOK (json_of_map [(''status'', JString ''ok'')]) c"

definition root_redirect :: "ctx \<Rightarrow> ctx" where
  "root_redirect c = c_Redirect StatusMovedPermanently ''/swagger/index.html'' c"

lemmas [handler_defs] = CreateGopher_def [abs_def] GetGophers_def [abs_def]
  GetGopherByID_def [abs_def] UpdateGopher_def [abs_def] DeleteGopher_def [abs_def]
  HealthCheck_def [abs_def] root_redirect_def [abs_def]

subsection \<open>JSON bodies\<close>

lemma marshal_gopher_zero [json_simps]:
  "marshal (gopher_json gopher_zero) = ''{\"id\":\"\",\"name\":\"\"}''"
  by (simp add: gopher_json_def gopher_zero_def quote_string_def html_safe_def)

lemma marshal_empty_list [json_simps]: "marshal (JArray (map gopher_json [])) = ''[]''"
  by simp

lemma marshal_health [json_simps]:
  "marshal (json_of_map [(''status'', JString ''ok'')]) = ''{\"status\":\"ok\"}''"
  by (simp add: json_of_map_def quote_string_def json_simps html_safe_def)

lemma handler_body_allowed [simp]: "body_allowed 200" "body_allowed 201" "\<not> body_allowed 204"
  by (simp_all add: body_allowed_def)

text \<open>Every handler of main.go writes the response only through the writer.\<close>

lemma handlers_writer_handler:
  "writer_handler CreateGopher" "writer_handler GetGophers" "writer_handler GetGopherByID"
  "writer_handler UpdateGopher" "writer_handler DeleteGopher" "writer_handler HealthCheck"
  "writer_handler root_redirect"
  by (simp_all add: handler_defs c_JSON_writer_handler c_Status_writer_handler
      c_Redirect_writer_handler)

end
