(* ===== verification/App.thy ===== *)
theory App
  imports Router Handlers
begin

text \<open>
  \<open>main()\<close> of main.go (lines 27-50): \<open>gin.Default()\<close>, the eight route
  registrations (two on the engine's root group, one for the swagger UI, five on the
  group \<open>/gophers\<close>), then \<open>r.Run(":8000")\<close> and \<open>log.Fatalf\<close> when it fails.
  The swagger UI handler \<open>ginSwagger.WrapHandler(swaggerFiles.Handler)\<close> belongs to
  a library and is a parameter \<open>swagger\<close> of the model: every statement below holds
  whatever it does.
\<close>

text \<open>Each registration as \<open>group.handle\<close> builds it: method, \<open>joinPaths(basePath, relativePath)\<close>, handler.\<close>

definition main_registrations :: "handler \<Rightarrow> (string \<times> string \<times> handler) list" where
  "main_registrations swagger =
     (let root = ''/''; gopherRoutes = join_paths root ''/gophers'' in
      [(''GET'', join_paths root ''/'', root_redirect),
       (''GET'', join_paths root ''/swagger/*any'', swagger),
       (''GET'', join_paths root ''/health'', HealthCheck),
       (''POST'', join_paths gopherRoutes [], CreateGopher),
       (''GET'', join_paths gopherRoutes [], GetGophers),
       (''GET'', join_paths gopherRoutes ''/:id'', GetGopherByID),
       (''PUT'', join_paths gopherRoutes ''/:id'', UpdateGopher),
       (''DELETE'', join_paths gopherRoutes ''/:id'', DeleteGopher)])"

definition main_routes :: "handler \<Rightarrow> route_error + route list" where
  "main_routes swagger = add_routes [] (main_registrations swagger)"

text \<open>What \<open>r.Run\<close> does: serve forever, or return the error of \<open>net.Listen\<close>.\<close>

datatype run_result = Serving | ListenError string

datatype main_outcome =
    RoutePanic route_error
  | FatalExit int string
  | Running "route list"

definition run_addr :: string where
  "run_addr = '':8000''"

definition main :: "handler \<Rightarrow> run_result \<Rightarrow> main_outcome" where
  "main swagger run =
     (case main_routes swagger of
        Inl e \<Rightarrow> RoutePanic e
      | Inr rs \<Rightarrow>
          (case run of
             ListenError err \<Rightarrow> FatalExit 1 (''failed to run server: '' @ err)
           | Serving \<Rightarrow> Running rs))"

text \<open>The response of the running server to one request.\<close>

definition serve :: "handler \<Rightarrow> request \<Rightarrow> http_response option" where
  "serve swagger req =
     (case main_routes swagger of Inl e \<Rightarrow> None | Inr rs \<Rightarrow> handle_request rs req)"

subsection \<open>The route table\<close>

text \<open>
  Registration never panics: the eight paths are absolute, their wildcards are named,
  and no two of one method conflict. The table is the one main.go means.
\<close>

lemma main_routes_eq: "main_routes sw = Inr
  [\<lparr>rt_method = ''GET'', rt_path = ''/'', rt_pattern = [Static []], rt_handler = root_redirect\<rparr>,
   \<lparr>rt_method = ''GET'', rt_path = ''/swagger/*any'', rt_pattern = [Static ''swagger'', CatchAll ''any''], rt_handler = sw\<rparr>,
   \<lparr>rt_method = ''GET'', rt_path = ''/health'', rt_pattern = [Static ''health''], rt_handler = HealthCheck\<rparr>,
   \<lparr>rt_method = ''POST'', rt_path = ''/gophers'', rt_pattern = [Static ''gophers''], rt_handler = CreateGopher\<rparr>,
   \<lparr>rt_method = ''GET'', rt_path = ''/gophers'', rt_pattern = [Static ''gophers''], rt_handler = GetGophers\<rparr>,
   \<lparr>rt_method = ''GET'', rt_path = ''/gophers/:id'', rt_pattern = [Static ''gophers'', Param ''id''], rt_handler = GetGopherByID\<rparr>,
   \<lparr>rt_method = ''PUT'', rt_path = ''/gophers/:id'', rt_pattern = [Static ''gophers'', Param ''id''], rt_handler = UpdateGopher\<rparr>,
   \<lparr>rt_method = ''DELETE'', rt_path = ''/gophers/:id'', rt_pattern = [Static ''gophers'', Param ''id''], rt_handler = DeleteGopher\<rparr>]"
  by (simp add: main_routes_def main_registrations_def join_paths_def path_join_def path_clean_def
      clean_step_def add_route_def path_segments_def parse_seg_def wild_name_ok_def Let_def)


lemma main_routes_first_seg:
  "main_routes sw = Inr rs \<Longrightarrow>
   \<forall>r \<in> set rs. rt_pattern r = [Static []] \<or> (case rt_pattern r of Static a # _ \<Rightarrow> a \<noteq> [] | _ \<Rightarrow> False)"
  by (auto simp: main_routes_eq)

text \<open>The routes of the table a lookup can answer with, and the lookups that succeed.\<close>

lemma main_lookup_cases:
  assumes "main_routes sw = Inr rs" and "lookup rs m p = Some (h, ps)"
  shows "(m = ''GET'' \<and> p = ''/'' \<and> h = root_redirect \<and> ps = [])
       \<or> (m = ''GET'' \<and> (\<exists>r. p = ''/swagger/'' @ r \<and> h = sw \<and> ps = [(''any'', ''/'' @ r)]))
       \<or> (m = ''GET'' \<and> p = ''/health'' \<and> h = HealthCheck \<and> ps = [])
       \<or> (m = ''POST'' \<and> p = ''/gophers'' \<and> h = CreateGopher \<and> ps = [])
       \<or> (m = ''GET'' \<and> p = ''/gophers'' \<and> h = GetGophers \<and> ps = [])
       \<or> (\<exists>g. g \<noteq> [] \<and> CHR ''/'' \<notin> set g \<and> p = ''/gophers/'' @ g \<and> ps = [(''id'', g)] \<and>
            (m = ''GET'' \<and> h = GetGopherByID \<or> m = ''PUT'' \<and> h = UpdateGopher
             \<or> m = ''DELETE'' \<and> h = DeleteGopher))"
proof -
  obtain r xs where r: "r \<in> set rs" "rt_method r = m" "rt_handler r = h"
    and seg: "path_segments p = Some xs" and mt: "match_segs (rt_pattern r) xs = Some ps"
    using lookup_SomeD [OF assms(2)] by blast
  from seg have p: "p = CHR ''/'' # join_slash xs" and nd: "\<forall>x \<in> set xs. CHR ''/'' \<notin> set x"
    by (auto dest: path_segments_Some)
  from assms(1) r(1) have "r \<in> set (projr (main_routes sw))" by simp
  then show ?thesis
    unfolding main_routes_eq sum.sel set_simps insert_iff empty_iff
    using r mt p nd
    by (elim disjE; simp add: match_static match_static_param match_static_catchall;
        (elim exE conjE; simp add: join_slash_Cons)?)
qed

lemma main_swagger_lookup:
  assumes "main_routes sw = Inr rs"
  shows "lookup rs ''GET'' (''/swagger/'' @ s) \<noteq> None"
proof (rule lookup_matchI)
  let ?r = "\<lparr>rt_method = ''GET'', rt_path = ''/swagger/*any'', rt_pattern = [Static ''swagger'', CatchAll ''any''], rt_handler = sw\<rparr>"
  have "rs = projr (main_routes sw)" using assms by simp
  then show "?r \<in> set rs" by (simp add: main_routes_eq)
  show "rt_method ?r = ''GET''" by simp
  show "path_segments (''/swagger/'' @ s) = Some (''swagger'' # split_on (CHR ''/'') s)"
    by (simp add: path_segments_def)
  show "match_segs (rt_pattern ?r) (''swagger'' # split_on (CHR ''/'') s) = Some [(''any'', ''/'' @ join_slash (split_on (CHR ''/'') s))]"
    by simp
qed

lemma main_trailing_swagger:
  assumes rs: "main_routes sw = Inr rs" and n: "lookup rs ''GET'' p = None"
    and t: "toggle_slash p = ''/swagger/'' @ r"
  shows "r = []"
proof (cases "1 < length p \<and> last p = CHR ''/''")
  case True
  then have "p = butlast p @ [last p]" by (metis append_butlast_last_id length_greater_0_conv less_trans zero_less_one)
  then have "p = ''/swagger/'' @ r @ ''/''" using t True by (simp add: toggle_slash_def)
  then show ?thesis using main_swagger_lookup [OF rs, of "r @ ''/''"] n by simp
next
  case False
  have pe: "p @ ''/'' = ''/swagger/'' @ r" using t unfolding toggle_slash_def if_not_P [OF False] .
  show ?thesis
  proof (rule ccontr)
    assume "r \<noteq> []"
    then have "p = ''/swagger/'' @ butlast r" using pe
      by (metis append_butlast_last_id butlast_append butlast_snoc)
    then show False using main_swagger_lookup [OF rs, of "butlast r"] n by simp
  qed
qed

lemma main_gopher_lookup:
  assumes rs: "main_routes sw = Inr rs" and m: "m = ''GET'' \<or> m = ''PUT'' \<or> m = ''DELETE''"
    and g: "g \<noteq> []" "CHR ''/'' \<notin> set g"
  shows "lookup rs m (''/gophers/'' @ g) \<noteq> None"
proof -
  have tab: "rs = projr (main_routes sw)" using rs by simp
  obtain h where r: "\<lparr>rt_method = m, rt_path = ''/gophers/:id'', rt_pattern = [Static ''gophers'', Param ''id''],
      rt_handler = h\<rparr> \<in> set rs"
    using m unfolding tab main_routes_eq by auto
  show ?thesis
  proof (rule lookup_matchI [OF r])
    show "path_segments (''/gophers/'' @ g) = Some [''gophers'', g]" using g(2) by (simp add: path_segments_def)
    show "match_segs (rt_pattern \<lparr>rt_method = m, rt_path = ''/gophers/:id'',
        rt_pattern = [Static ''gophers'', Param ''id''], rt_handler = h\<rparr>) [''gophers'', g] = Some [(''id'', g)]"
      using g(1) by simp
  qed simp
qed

lemma main_dispatch_values:
  assumes rs: "main_routes sw = Inr rs"
  shows "dispatch rs ''PUT'' ''/gophers'' = NoRoute" "dispatch rs ''DELETE'' ''/gophers'' = NoRoute"
    "dispatch rs ''PUT'' ''/'' = NoRoute" "dispatch rs ''DELETE'' ''/'' = NoRoute"
    "lookup rs ''GET'' ''/'' \<noteq> None" "lookup rs ''GET'' ''/gophers'' \<noteq> None"
    "lookup rs ''POST'' ''/gophers'' \<noteq> None" "lookup rs ''GET'' ''/health'' \<noteq> None"
proof -
  have tab: "rs = projr (main_routes sw)" using rs by simp
  note defs = tab main_routes_eq dispatch_def tsr_def lookup_def matches_def toggle_slash_def path_segments_def
  show "dispatch rs ''PUT'' ''/gophers'' = NoRoute" by (simp add: defs)
  show "dispatch rs ''DELETE'' ''/gophers'' = NoRoute" by (simp add: defs)
  show "dispatch rs ''PUT'' ''/'' = NoRoute" by (simp add: defs)
  show "dispatch rs ''DELETE'' ''/'' = NoRoute" by (simp add: defs)
  show "lookup rs ''GET'' ''/'' \<noteq> None" by (simp add: defs)
  show "lookup rs ''GET'' ''/gophers'' \<noteq> None" by (simp add: defs)
  show "lookup rs ''POST'' ''/gophers'' \<noteq> None" by (simp add: defs)
  show "lookup rs ''GET'' ''/health'' \<noteq> None" by (simp add: defs)
qed

lemma clean_trailing_main:
  "clean_trailing ''/'' = ''/''" "clean_trailing ''/swagger/'' = ''/swagger/''"
  "clean_trailing ''/health'' = ''/health''" "clean_trailing ''/gophers'' = ''/gophers''"
  by code_simp+

lemma clean_trailing_gopher:
  assumes "g \<noteq> []" "CHR ''/'' \<notin> set g"
  shows "clean_trailing (''/gophers/'' @ g) =
           (if g = ''.'' then ''/gophers'' else if g = ''..'' then ''/'' else ''/gophers/'' @ g)"
proof -
  have sp: "split_on (CHR ''/'') (''/gophers/'' @ g) = [[], ''gophers'', g]" using assms(2) by simp
  have l: "last (''/gophers/'' @ g) \<noteq> CHR ''/''" using hd_last_no_slash [OF assms] assms(1) by simp
  show ?thesis using assms(1) l
    unfolding clean_trailing_def path_clean_def Let_def sp
    by (simp add: clean_step_def)
qed

text \<open>The targets of the trailing-slash redirects of the table.\<close>

lemma main_tsr_targets:
  assumes rs: "main_routes sw = Inr rs" and d: "dispatch rs m p = TrailingSlashRedirect loc code"
  shows "(m = ''GET'' \<and> (loc = ''/'' \<or> loc = ''/swagger/'' \<or> loc = ''/health'' \<or> loc = ''/gophers''))
       \<or> (m = ''POST'' \<and> loc = ''/gophers'')
       \<or> (\<exists>g. CHR ''/'' \<notin> set g \<and> loc = ''/gophers/'' @ g \<and> (m = ''GET'' \<or> m = ''PUT'' \<or> m = ''DELETE''))"
proof -
  have n: "lookup rs m p = None" and t: "tsr rs m p" and l: "toggle_slash p = loc"
    using d by (auto simp: dispatch_def split: option.splits if_splits)
  have sw: "r = []" if "loc = ''/swagger/'' @ r" "m = ''GET''" for r
    using main_trailing_swagger [OF rs _ l [unfolded that(1)]] n that(2) by simp
  show ?thesis
  proof (cases "1 < length p \<and> last p = CHR ''/''")
    case True
    then have lb: "loc = butlast p" using l by (simp add: toggle_slash_def)
    obtain xs where seg: "path_segments (butlast p) = Some xs"
      and f: "filter (\<lambda>r. rt_method r = m \<and> match_loose (rt_pattern r) xs) rs \<noteq> []"
      using t True by (auto simp: tsr_def split: option.splits)
    then obtain r where r: "r \<in> set rs" "rt_method r = m" "match_loose (rt_pattern r) xs"
      by (auto simp: filter_empty_conv)
    from seg have p: "butlast p = CHR ''/'' # join_slash xs" and nd: "\<forall>x \<in> set xs. CHR ''/'' \<notin> set x"
      by (auto dest: path_segments_Some)
    have pb: "p = butlast p @ ''/''" using True
      by (metis append_butlast_last_id length_greater_0_conv less_trans zero_less_one)
    have "r \<in> set (projr (main_routes sw))" using rs r(1) by simp
    then show ?thesis
      unfolding main_routes_eq sum.sel set_simps insert_iff empty_iff
    proof (elim disjE)
      assume "r = \<lparr>rt_method = ''GET'', rt_path = ''/swagger/*any'', rt_pattern = [Static ''swagger'', CatchAll ''any''], rt_handler = sw\<rparr>"
      then obtain rest where "xs = ''swagger'' # rest" "rest \<noteq> []" "m = ''GET''"
        using r by (auto simp: match_loose_static_catchall)
      then have "p = ''/swagger/'' @ (join_slash rest @ ''/'')" using p pb by (simp add: join_slash_Cons)
      moreover have "lookup rs ''GET'' (''/swagger/'' @ (join_slash rest @ ''/'')) \<noteq> None"
        by (rule main_swagger_lookup [OF rs])
      ultimately show ?thesis using n \<open>m = ''GET''\<close> by simp
    qed (use r p nd lb in \<open>auto simp: match_loose_static match_loose_static_param\<close>)
  next
    case False
    have "loc = p @ ''/''" using l unfolding toggle_slash_def if_not_P [OF False] by simp
    moreover have "lookup rs m (p @ ''/'') \<noteq> None" using t unfolding tsr_def if_not_P [OF False] .
    ultimately have "lookup rs m loc \<noteq> None" by simp
    then obtain h ps where "lookup rs m loc = Some (h, ps)" by auto
    from main_lookup_cases [OF rs this] show ?thesis
    proof (elim disjE)
      assume "m = ''GET'' \<and> (\<exists>r. loc = ''/swagger/'' @ r \<and> h = sw \<and> ps = [(''any'', ''/'' @ r)])"
      then obtain r where "m = ''GET''" "loc = ''/swagger/'' @ r" by blast
      then show ?thesis using sw by simp
    next
      assume "\<exists>g. g \<noteq> [] \<and> CHR ''/'' \<notin> set g \<and> loc = ''/gophers/'' @ g \<and> ps = [(''id'', g)] \<and>
            (m = ''GET'' \<and> h = GetGopherByID \<or> m = ''PUT'' \<and> h = UpdateGopher
             \<or> m = ''DELETE'' \<and> h = DeleteGopher)"
      then show ?thesis by blast
    qed simp_all
  qed
qed

lemma main_dispatch_gophers_slash:
  assumes rs: "main_routes sw = Inr rs"
  shows "dispatch rs ''GET'' ''/gophers/'' = TrailingSlashRedirect ''/gophers'' 301"
    "dispatch rs ''PUT'' ''/gophers/'' = NoRoute" "dispatch rs ''DELETE'' ''/gophers/'' = NoRoute"
    "clean_trailing ''/gophers/'' = ''/gophers/''"
proof -
  have tab: "rs = projr (main_routes sw)" using rs by simp
  note defs = tab main_routes_eq dispatch_def tsr_def lookup_def matches_def toggle_slash_def path_segments_def
  show "dispatch rs ''GET'' ''/gophers/'' = TrailingSlashRedirect ''/gophers'' 301" by (simp add: defs)
  show "dispatch rs ''PUT'' ''/gophers/'' = NoRoute" by (simp add: defs)
  show "dispatch rs ''DELETE'' ''/gophers/'' = NoRoute" by (simp add: defs)
  show "clean_trailing ''/gophers/'' = ''/gophers/''" by code_simp
qed

text \<open>The locations \<open>http.Redirect\<close> writes for the redirects of this server.\<close>

lemma redirect_url_main [simp]:
  "redirect_url ''/'' ''/swagger/index.html'' = ''/swagger/index.html''"
  "redirect_url ''/health'' (escape_path ''/health'') = ''/health''"
  "redirect_url ''/gophers'' (escape_path ''/gophers'') = ''/gophers''"
  "redirect_url ''/gophers/..'' (escape_path ''/gophers/..'') = ''/''"
  "redirect_url ''/gophers/.'' (escape_path ''/gophers/.'') = ''/gophers''"
  by code_simp+

lemmas serve_simps = serve_def main_routes_eq handle_request_def dispatch_def tsr_def lookup_def matches_def


end
