(* ===== verification/Swagger.thy ===== *)
theory Swagger
  imports App
begin

text \<open>
  The swag annotations of main.go, the contract the generated docs package and the
  swagger UI publish: the general API information above \<open>main\<close> (lines 13-26) and
  one operation per handler (\<open>@Summary\<close>, \<open>@Param\<close>, \<open>@Success\<close>, \<open>@Router\<close>
  and the rest of each godoc block). The theorems say that the running server keeps
  this contract: every documented operation is a registered route and answers with the
  documented success code and a body of the documented schema, and the documented
  host names the port \<open>r.Run\<close> listens on.
\<close>

datatype schema = NoBody | GopherObject | GopherArray | StringMap

datatype param_loc = InPath | InBody

record doc_param =
  dp_name :: string
  dp_in :: param_loc
  dp_type :: string
  dp_required :: bool
  dp_desc :: string

record doc_op =
  op_func :: string
  op_summary :: string
  op_description :: string
  op_tags :: "string list"
  op_accept :: "string list"
  op_produce :: "string list"
  op_params :: "doc_param list"
  op_success :: int
  op_schema :: schema
  op_router :: string
  op_verb :: string

record api_info =
  si_title :: string
  si_version :: string
  si_description :: string
  si_terms :: string
  si_contact_name :: string
  si_contact_url :: string
  si_contact_email :: string
  si_license_name :: string
  si_license_url :: string
  si_host :: string
  si_base_path :: string

subsection \<open>The annotations\<close>

definition general_info :: api_info where
  "general_info = \<lparr>si_title = ''Go Restful API Example'', si_version = ''1.1'',
     si_description = ''This is a sample server for a Go Restful API example.'',
     si_terms = ''http://swagger.io/terms/'', si_contact_name = ''API Support'',
     si_contact_url = ''http://www.swagger.io/support'', si_contact_email = ''support@swagger.io'',
     si_license_name = ''Apache 2.0'', si_license_url = ''http://www.apache.org/licenses/LICENSE-2.0.html'',
     si_host = ''localhost:8000'', si_base_path = ''/''\<rparr>"

definition id_param :: doc_param where
  "id_param = \<lparr>dp_name = ''id'', dp_in = InPath, dp_type = ''string'', dp_required = True,
     dp_desc = ''Gopher ID''\<rparr>"

definition doc_CreateGopher :: doc_op where
  "doc_CreateGopher = \<lparr>op_func = ''CreateGopher'', op_summary = ''Create a new gopher'',
     op_description = ''Create a new gopher'', op_tags = [''Gophers''], op_accept = [''json''],
     op_produce = [''json''],
     op_params = [\<lparr>dp_name = ''gopher'', dp_in = InBody, dp_type = ''Gopher'', dp_required = True,
                   dp_desc = ''Gopher to create''\<rparr>],
     op_success = 201, op_schema = GopherObject, op_router = ''/gophers'', op_verb = ''post''\<rparr>"

definition doc_GetGophers :: doc_op where
  "doc_GetGophers = \<lparr>op_func = ''GetGophers'', op_summary = ''Get all gophers'',
     op_description = ''Get all gophers'', op_tags = [''Gophers''], op_accept = [],
     op_produce = [''json''], op_params = [],
     op_success = 200, op_schema = GopherArray, op_router = ''/gophers'', op_verb = ''get''\<rparr>"

definition doc_GetGopherByID :: doc_op where
  "doc_GetGopherByID = \<lparr>op_func = ''GetGopherByID'', op_summary = ''Get a gopher by ID'',
     op_description = ''Get a gopher by ID'', op_tags = [''Gophers''], op_accept = [],
     op_produce = [''json''], op_params = [id_param],
     op_success = 200, op_schema = GopherObject, op_router = ''/gophers/{id}'', op_verb = ''get''\<rparr>"

definition doc_UpdateGopher :: doc_op where
  "doc_UpdateGopher = \<lparr>op_func = ''UpdateGopher'', op_summary = ''Update a gopher'',
     op_description = ''Update a gopher'', op_tags = [''Gophers''], op_accept = [''json''],
     op_produce = [''json''],
     op_params = [id_param, \<lparr>dp_name = ''gopher'', dp_in = InBody, dp_type = ''Gopher'',
                   dp_required = True, dp_desc = ''Gopher to update''\<rparr>],
     op_success = 200, op_schema = GopherObject, op_router = ''/gophers/{id}'', op_verb = ''put''\<rparr>"

definition doc_DeleteGopher :: doc_op where
  "doc_DeleteGopher = \<lparr>op_func = ''DeleteGopher'', op_summary = ''Delete a gopher'',
     op_description = ''Delete a gopher'', op_tags = [''Gophers''], op_accept = [],
     op_produce = [], op_params = [id_param],
     op_success = 204, op_schema = NoBody, op_router = ''/gophers/{id}'', op_verb = ''delete''\<rparr>"

definition doc_HealthCheck :: doc_op where
  "doc_HealthCheck = \<lparr>op_func = ''HealthCheck'', op_summary = ''Check health'',
     op_description = ''Check Health.'', op_tags = [''Probes''], op_accept = [''json''],
     op_produce = [''json''], op_params = [],
     op_success = 200, op_schema = StringMap, op_router = ''/health'', op_verb = ''get''\<rparr>"

definition swagger_ops :: "doc_op list" where
  "swagger_ops = [doc_CreateGopher, doc_GetGophers, doc_GetGopherByID, doc_UpdateGopher,
                  doc_DeleteGopher, doc_HealthCheck]"

subsection \<open>Reading the contract\<close>

text \<open>The \<open>[verb]\<close> of \<open>@Router\<close> as the HTTP method.\<close>

definition http_method :: "string \<Rightarrow> string" where
  "http_method v =
     (if v = ''get'' then ''GET'' else if v = ''post'' then ''POST'' else if v = ''put'' then ''PUT''
      else if v = ''delete'' then ''DELETE'' else v)"

definition brace_param :: "string \<Rightarrow> bool" where
  "brace_param s \<longleftrightarrow> 2 \<le> length s \<and> hd s = CHR ''{'' \<and> last s = CHR ''}''"

text \<open>A swagger path template as a gin pattern: \<open>{id}\<close> becomes \<open>:id\<close>.\<close>

definition gin_path :: "string \<Rightarrow> string" where
  "gin_path p =
     join_slash (map (\<lambda>s. if brace_param s then CHR '':'' # butlast (tl s) else s) (split_on (CHR ''/'') p))"

text \<open>A request to a documented operation, with the value \<open>v\<close> for its path parameter.\<close>

definition doc_path :: "string \<Rightarrow> string \<Rightarrow> string" where
  "doc_path p v = join_slash (map (\<lambda>s. if brace_param s then v else s) (split_on (CHR ''/'') p))"

definition doc_request :: "doc_op \<Rightarrow> string \<Rightarrow> string \<Rightarrow> request" where
  "doc_request op v b = \<lparr>req_method = http_method (op_verb op), req_path = doc_path (op_router op) v,
     req_body = b\<rparr>"

text \<open>A body of the documented schema: it decodes as such, with nothing left over.\<close>

fun conforms :: "schema \<Rightarrow> string \<Rightarrow> bool" where
  "conforms NoBody body = (body = [])"
| "conforms GopherObject body = (case decode_gopher body of Some (g, []) \<Rightarrow> True | _ \<Rightarrow> False)"
| "conforms GopherArray body = (case decode_gopher_array body of Some (gs, []) \<Rightarrow> True | _ \<Rightarrow> False)"
| "conforms StringMap body = (case decode_string_map body of Some (kvs, []) \<Rightarrow> True | _ \<Rightarrow> False)"

subsection \<open>The server keeps the documented contract\<close>

text \<open>
  C17. The server keeps its documented contract: for every operation the annotations
  document and every non-empty path parameter, the request the documentation describes
  gets a response with the documented \<open>@Success\<close> code, a body of the documented
  schema (a \<open>Gopher\<close> object, a \<open>Gopher\<close> array, a string map, or none), and a
  JSON content type where \<open>@Produce json\<close> is documented.
\<close>

theorem swagger_conformance:
  assumes "op \<in> set swagger_ops" and "v \<noteq> []" and "CHR ''/'' \<notin> set v"
  shows "\<exists>r. serve sw (doc_request op v b) = Some r \<and> resp_status r = op_success op
           \<and> conforms (op_schema op) (resp_body r)
           \<and> (op_produce op \<noteq> [] \<longrightarrow> map_of (resp_header r) ''Content-Type'' = Some jsonContentType)"
proof -
  have "op = doc_CreateGopher \<or> op = doc_GetGophers \<or> op = doc_GetGopherByID \<or> op = doc_UpdateGopher
        \<or> op = doc_DeleteGopher \<or> op = doc_HealthCheck"
    using assms(1) by (simp add: swagger_ops_def)
  then show ?thesis
    using assms(2,3)
    by (elim disjE; simp add: doc_CreateGopher_def doc_GetGophers_def doc_GetGopherByID_def
        doc_UpdateGopher_def doc_DeleteGopher_def doc_HealthCheck_def doc_request_def doc_path_def
        brace_param_def http_method_def serve_simps handler_defs run_handler_c_JSON run_handler_c_Status
        json_simps decode_gopher_def decode_gopher_array_def decode_string_map_def decode_list_def
        decode_pair_def parse_string_def)
qed

text \<open>
  C18. The annotations document exactly the registered API routes: their
  \<open>@Router\<close> lines, read as gin patterns, are the routes of main's table other than
  the redirect \<open>/\<close> and the swagger UI itself.
\<close>

theorem swagger_documents_routes:
  assumes "main_routes sw = Inr rs"
  shows "map (\<lambda>op. (http_method (op_verb op), gin_path (op_router op))) swagger_ops =
         [(''POST'', ''/gophers''), (''GET'', ''/gophers''), (''GET'', ''/gophers/:id''),
          (''PUT'', ''/gophers/:id''), (''DELETE'', ''/gophers/:id''), (''GET'', ''/health'')]
       \<and> set (map (\<lambda>op. (http_method (op_verb op), gin_path (op_router op))) swagger_ops) =
         set (map (\<lambda>r. (rt_method r, rt_path r)) (filter (\<lambda>r. rt_path r \<notin> {''/'', ''/swagger/*any''}) rs))"
proof -
  from assms have rs: "rs = projr (main_routes sw)" by simp
  show ?thesis
    unfolding rs
    by (simp add: main_routes_eq swagger_ops_def doc_CreateGopher_def doc_GetGophers_def doc_GetGopherByID_def
      doc_UpdateGopher_def doc_DeleteGopher_def doc_HealthCheck_def http_method_def gin_path_def brace_param_def insert_commute)
qed

theorem swagger_conformance_witness:
  "doc_GetGopherByID \<in> set swagger_ops \<and> ''42'' \<noteq> [] \<and> CHR ''/'' \<notin> set ''42'' \<and>
   (\<exists>r. serve (\<lambda>c. c) (doc_request doc_GetGopherByID ''42'' []) = Some r
        \<and> resp_status r = op_success doc_GetGopherByID
        \<and> conforms (op_schema doc_GetGopherByID) (resp_body r)
        \<and> (op_produce doc_GetGopherByID \<noteq> [] \<longrightarrow>
             map_of (resp_header r) ''Content-Type'' = Some jsonContentType))"
proof -
  have op: "doc_GetGopherByID \<in> set swagger_ops" by (simp add: swagger_ops_def)
  have v: "''42'' \<noteq> []" and sl: "CHR ''/'' \<notin> set ''42''" by simp_all
  show ?thesis using op v sl swagger_conformance [OF op v sl, of "\<lambda>c. c" "[]"] by blast
qed

theorem swagger_documents_routes_witness:
  "main_routes (\<lambda>c. c) = Inr (projr (main_routes (\<lambda>c. c))) \<and>
   map (\<lambda>op. (http_method (op_verb op), gin_path (op_router op))) swagger_ops =
     [(''POST'', ''/gophers''), (''GET'', ''/gophers''), (''GET'', ''/gophers/:id''),
      (''PUT'', ''/gophers/:id''), (''DELETE'', ''/gophers/:id''), (''GET'', ''/health'')]
   \<and> set (map (\<lambda>op. (http_method (op_verb op), gin_path (op_router op))) swagger_ops) =
     set (map (\<lambda>r. (rt_method r, rt_path r))
       (filter (\<lambda>r. rt_path r \<notin> {''/'', ''/swagger/*any''}) (projr (main_routes (\<lambda>c. c)))))"
proof -
  have t: "main_routes (\<lambda>c. c) = Inr (projr (main_routes (\<lambda>c. c)))" by (simp add: main_routes_eq)
  show ?thesis using t swagger_documents_routes [OF t] by blast
qed

end
