(* ===== verification/GoClean.thy ===== *)
theory GoClean
  imports GoPath
begin

text \<open>
  Go's \<open>path.Clean\<close> as the standard library writes it (path/path.go): one pass over
  the bytes with a read index \<open>r\<close>, a \<open>lazybuf\<close> output whose write index \<open>w\<close>
  only copies the input when the output first differs from it, and the bound
  \<open>dotdot\<close> below which \<open>..\<close> may not backtrack. gin's \<open>joinPaths\<close> calls it through
  \<open>path.Join\<close> for every route main.go registers. The theory proves that this loop
  computes \<open>path_clean\<close>, the element-wise statement of \<open>Clean\<close> in \<open>GoPath\<close>, that
  each pass of the loop advances, and that the output never outgrows the input.
\<close>

subsection \<open>The byte loop of \<open>path.Clean\<close>\<close>

record lazybuf =
  lb_s :: string
  lb_buf :: "string option"
  lb_w :: nat

definition lb_index :: "lazybuf \<Rightarrow> nat \<Rightarrow> char" where
  "lb_index b i = (case lb_buf b of None \<Rightarrow> lb_s b ! i | Some buf \<Rightarrow> buf ! i)"

definition lb_append :: "lazybuf \<Rightarrow> char \<Rightarrow> lazybuf" where
  "lb_append b c =
     (case lb_buf b of
        None \<Rightarrow>
          if lb_w b < length (lb_s b) \<and> lb_s b ! lb_w b = c then b\<lparr>lb_w := lb_w b + 1\<rparr>
          else b\<lparr>lb_buf := Some ((take (lb_w b) (lb_s b) @ replicate (length (lb_s b) - lb_w b) (CHR 0x00))
                                  [lb_w b := c]),
                 lb_w := lb_w b + 1\<rparr>
      | Some buf \<Rightarrow> b\<lparr>lb_buf := Some (buf[lb_w b := c]), lb_w := lb_w b + 1\<rparr>)"

definition lb_string :: "lazybuf \<Rightarrow> string" where
  "lb_string b = (case lb_buf b of None \<Rightarrow> take (lb_w b) (lb_s b) | Some buf \<Rightarrow> take (lb_w b) buf)"

function backtrack :: "nat \<Rightarrow> lazybuf \<Rightarrow> lazybuf" where
  "backtrack dotdot b =
     (if dotdot < lb_w b \<and> lb_index b (lb_w b) \<noteq> CHR ''/''
      then backtrack dotdot (b\<lparr>lb_w := lb_w b - 1\<rparr>) else b)"
  by pat_completeness auto
termination
  by (relation "measure (\<lambda>(dotdot, b). lb_w b)") auto

declare backtrack.simps [simp del]

function copy_elem :: "string \<Rightarrow> nat \<Rightarrow> lazybuf \<Rightarrow> nat \<times> lazybuf" where
  "copy_elem path r b =
     (if r < length path \<and> path ! r \<noteq> CHR ''/''
      then copy_elem path (r + 1) (lb_append b (path ! r)) else (r, b))"
  by pat_completeness auto
termination
  by (relation "measure (\<lambda>(path, r, b). length path - r)") auto

declare copy_elem.simps [simp del]

definition clean_iter :: "bool \<Rightarrow> string \<Rightarrow> nat \<Rightarrow> nat \<Rightarrow> lazybuf \<Rightarrow> nat \<times> nat \<times> lazybuf" where
  "clean_iter rooted path r dotdot out =
     (if path ! r = CHR ''/'' then (r + 1, dotdot, out)
      else if path ! r = CHR ''.'' \<and> (r + 1 = length path \<or> path ! (r + 1) = CHR ''/'')
        then (r + 1, dotdot, out)
      else if path ! r = CHR ''.'' \<and> path ! (r + 1) = CHR ''.''
              \<and> (r + 2 = length path \<or> path ! (r + 2) = CHR ''/'') then
        (if dotdot < lb_w out
         then (r + 2, dotdot, backtrack dotdot (out\<lparr>lb_w := lb_w out - 1\<rparr>))
         else if \<not> rooted then
           (let out1 = (if 0 < lb_w out then lb_append out (CHR ''/'') else out);
                out2 = lb_append (lb_append out1 (CHR ''.'')) (CHR ''.'')
            in (r + 2, lb_w out2, out2))
         else (r + 2, dotdot, out))
      else
        (let out1 = (if rooted \<and> lb_w out \<noteq> 1 \<or> \<not> rooted \<and> lb_w out \<noteq> 0
                     then lb_append out (CHR ''/'') else out)
         in case copy_elem path r out1 of (r', out2) \<Rightarrow> (r', dotdot, out2)))"

function clean_loop :: "bool \<Rightarrow> string \<Rightarrow> nat \<Rightarrow> nat \<Rightarrow> lazybuf \<Rightarrow> lazybuf" where
  "clean_loop rooted path r dotdot out =
     (if r < length path then
        (case clean_iter rooted path r dotdot out of
           (r', dotdot', out') \<Rightarrow> clean_loop rooted path r' dotdot' out')
      else out)"
  by pat_completeness auto
termination
proof (relation "measure (\<lambda>(rooted, path, r, dotdot, out). length path - r)")
  have le: "r \<le> fst (copy_elem p r b)" for p r b
  proof (induction p r b rule: copy_elem.induct)
    case (1 path r b)
    then show ?case by (cases "r < length path \<and> path ! r \<noteq> CHR ''/''") (simp_all add: copy_elem.simps)
  qed
  have adv: "r < length p \<Longrightarrow> p ! r \<noteq> CHR ''/'' \<Longrightarrow> r < fst (copy_elem p r b)" for p r b
    using le [where p = p and r = "r + 1" and b = "lb_append b (p ! r)"]
    by (subst copy_elem.simps) simp
  have adv_iter: "r < fst (clean_iter rooted p r dd out)" if "r < length p" for rooted p r dd out
    using that adv [where p = p and r = r] unfolding clean_iter_def Let_def by (simp add: split_def)
  fix rooted path r dotdot out r' y dd' out'
  assume r: "r < length path" and x: "(r', y) = clean_iter rooted path r dotdot out"
    and "(dd', out') = y"
  from x have "r' = fst (clean_iter rooted path r dotdot out)" by (metis fst_conv)
  then have "r < r'" using adv_iter [OF r] by simp
  then show "((rooted, path, r', dd', out'), rooted, path, r, dotdot, out)
         \<in> measure (\<lambda>(rooted, path, r, dotdot, out). length path - r)"
    using r by simp
qed auto

declare clean_loop.simps [simp del]

definition clean_go :: "string \<Rightarrow> string" where
  "clean_go path =
     (if path = [] then ''.''
      else
        (let rooted = (path ! 0 = CHR ''/'');
             out0 = \<lparr>lb_s = path, lb_buf = None, lb_w = 0\<rparr>;
             out = (if rooted then clean_loop rooted path 1 1 (lb_append out0 (CHR ''/''))
                    else clean_loop rooted path 0 0 out0)
         in if lb_w out = 0 then ''.'' else lb_string out))"


subsection \<open>Invariant of the loop\<close>

text \<open>
  The output buffer is well formed; its text is the rendering of a stack of clean
  elements; \<open>dotdot\<close> is the length of its leading \<open>..\<close> elements (1 for a rooted
  path); the write index never passes the read index, which stands at an element
  boundary.
\<close>

definition lb_ok :: "lazybuf \<Rightarrow> bool" where
  "lb_ok b \<longleftrightarrow> lb_w b \<le> length (lb_s b) \<and>
     (case lb_buf b of None \<Rightarrow> True | Some buf \<Rightarrow> length buf = length (lb_s b))"

abbreviation elem_at :: "string \<Rightarrow> nat \<Rightarrow> string" where
  "elem_at path r \<equiv> takeWhile (\<lambda>c. c \<noteq> CHR ''/'') (drop r path)"

definition render :: "bool \<Rightarrow> string list \<Rightarrow> string" where
  "render rooted acc = (if rooted then ''/'' else []) @ join_slash acc"

definition dd_of :: "bool \<Rightarrow> string list \<Rightarrow> nat" where
  "dd_of rooted acc = (if rooted then 1 else length (join_slash (takeWhile (\<lambda>e. e = ''..'') acc)))"

definition acc_ok :: "bool \<Rightarrow> string list \<Rightarrow> bool" where
  "acc_ok rooted acc \<longleftrightarrow> (\<forall>e \<in> set acc. e \<noteq> [] \<and> CHR ''/'' \<notin> set e \<and> e \<noteq> ''.'') \<and>
     (\<forall>e \<in> set (dropWhile (\<lambda>e. e = ''..'') acc). e \<noteq> ''..'') \<and> (rooted \<longrightarrow> ''..'' \<notin> set acc)"

definition clean_inv :: "bool \<Rightarrow> string \<Rightarrow> nat \<Rightarrow> nat \<Rightarrow> lazybuf \<Rightarrow> string list \<Rightarrow> bool" where
  "clean_inv rooted path r dotdot out acc \<longleftrightarrow>
     lb_ok out \<and> lb_s out = path \<and> lb_string out = render rooted acc \<and> dotdot = dd_of rooted acc \<and>
     acc_ok rooted acc \<and> lb_w out \<le> r \<and> r \<le> length path \<and> (r = 0 \<longrightarrow> acc = [] \<and> \<not> rooted) \<and>
     (acc \<noteq> [] \<and> 0 < r \<and> path ! (r - 1) = CHR ''/'' \<longrightarrow> lb_w out < r) \<and>
     (r = 0 \<or> path ! (r - 1) = CHR ''/'' \<or> r = length path \<or> path ! r = CHR ''/'')"

abbreviation clean_fold :: "bool \<Rightarrow> string \<Rightarrow> string list \<Rightarrow> string list" where
  "clean_fold rooted s acc \<equiv> fold (clean_step rooted) (split_on (CHR ''/'') s) acc"


lemma lb_length: "lb_ok b \<Longrightarrow> length (lb_string b) = lb_w b"
  by (auto simp: lb_ok_def lb_string_def split: option.splits)

lemma lb_append_spec:
  assumes "lb_ok b" "lb_w b < length (lb_s b)"
  shows "lb_ok (lb_append b c) \<and> lb_string (lb_append b c) = lb_string b @ [c] \<and>
         lb_s (lb_append b c) = lb_s b \<and> lb_w (lb_append b c) = Suc (lb_w b)"
  using assms
  by (auto simp: lb_ok_def lb_append_def lb_string_def take_Suc_conv_app_nth nth_append
      split: option.splits)

lemma lb_index_string: "lb_ok b \<Longrightarrow> i < lb_w b \<Longrightarrow> lb_index b i = lb_string b ! i"
  by (auto simp: lb_ok_def lb_index_def lb_string_def split: option.splits)

lemma lb_index_w [simp]: "lb_index (b\<lparr>lb_w := j\<rparr>) i = lb_index b i"
  by (simp add: lb_index_def split: option.splits)

lemma lb_truncate:
  "lb_ok b \<Longrightarrow> k \<le> lb_w b \<Longrightarrow> lb_ok (b\<lparr>lb_w := k\<rparr>) \<and> lb_string (b\<lparr>lb_w := k\<rparr>) = take k (lb_string b)"
  by (auto simp: lb_ok_def lb_string_def min_def split: option.splits)

lemma backtrack_stop:
  assumes "lb_ok b" "j < lb_w b" "k \<le> j"
    and "\<forall>i. k < i \<and> i \<le> j \<longrightarrow> dd < i \<and> lb_string b ! i \<noteq> CHR ''/''"
    and "k \<le> dd \<or> lb_string b ! k = CHR ''/''"
  shows "backtrack dd (b\<lparr>lb_w := j\<rparr>) = b\<lparr>lb_w := k\<rparr>"
  using assms(2-4)
proof (induction j)
  case 0
  then show ?case using assms(5) lb_index_string [OF assms(1)]
    by (subst backtrack.simps) auto
next
  case (Suc j)
  show ?case
  proof (cases "k = Suc j")
    case True
    then show ?thesis using assms(5) lb_index_string [OF assms(1)] Suc.prems
      by (subst backtrack.simps) auto
  next
    case False
    then have "dd < Suc j \<and> lb_string b ! Suc j \<noteq> CHR ''/''" using Suc.prems by auto
    then have "lb_index (b\<lparr>lb_w := Suc j\<rparr>) (Suc j) \<noteq> CHR ''/''"
      using lb_index_string [OF assms(1)] Suc.prems by simp
    then show ?thesis using Suc.IH Suc.prems False \<open>dd < Suc j \<and> _\<close>
      by (subst backtrack.simps) simp
  qed
qed

lemma copy_elem_spec:
  "lb_ok b \<Longrightarrow> lb_s b = path \<Longrightarrow> lb_w b \<le> r \<Longrightarrow> copy_elem path r b = (r', b') \<Longrightarrow>
   r' = r + length (elem_at path r) \<and> lb_ok b' \<and> lb_s b' = path \<and>
   lb_string b' = lb_string b @ elem_at path r \<and> lb_w b' \<le> r'"
proof (induction path r b arbitrary: r' b' rule: copy_elem.induct)
  case (1 path r b)
  show ?case
  proof (cases "r < length path \<and> path ! r \<noteq> CHR ''/''")
    case True
    let ?b1 = "lb_append b (path ! r)"
    have a: "lb_ok ?b1 \<and> lb_string ?b1 = lb_string b @ [path ! r] \<and> lb_s ?b1 = path \<and>
             lb_w ?b1 = Suc (lb_w b)"
      using lb_append_spec [OF "1.prems"(1)] "1.prems"(2,3) True by auto
    have c: "copy_elem path (r + 1) ?b1 = (r', b')"
      using "1.prems"(4) True by (subst (asm) copy_elem.simps) simp
    have d: "drop r path = path ! r # drop (Suc r) path" using True by (simp add: Cons_nth_drop_Suc)
    have IH: "r' = r + 1 + length (elem_at path (r + 1)) \<and> lb_ok b' \<and> lb_s b' = path \<and>
        lb_string b' = lb_string ?b1 @ elem_at path (r + 1) \<and> lb_w b' \<le> r'"
      using "1.IH" [OF True _ _ _ c] a "1.prems"(3) by simp
    have e: "elem_at path r = path ! r # elem_at path (r + 1)" using d True by simp
    show ?thesis using IH a e by simp
  next
    case False
    then have "copy_elem path r b = (r, b)" by (subst copy_elem.simps) (rule if_not_P)
    moreover have "elem_at path r = []"
      using False by (cases "r < length path") (auto simp: Cons_nth_drop_Suc [symmetric])
    ultimately show ?thesis using "1.prems" by auto
  qed
qed

lemma fold_clean_slash:
  "fold (clean_step rt) (split_on (CHR ''/'') (CHR ''/'' # s)) acc = fold (clean_step rt) (split_on (CHR ''/'') s) acc"
  by (simp add: clean_step_def)

lemma fold_clean_elem:
  assumes "CHR ''/'' \<notin> set e" "rest = [] \<or> hd rest = CHR ''/''"
  shows "fold (clean_step rt) (split_on (CHR ''/'') (e @ rest)) acc =
         fold (clean_step rt) (split_on (CHR ''/'') rest) (clean_step rt e acc)"
  using assms by (cases rest) (auto simp: clean_step_def)

lemma elem_at_split:
  "drop r path = elem_at path r @ drop (r + length (elem_at path r)) path \<and>
   (drop (r + length (elem_at path r)) path = [] \<or> hd (drop (r + length (elem_at path r)) path) = CHR ''/'') \<and>
   CHR ''/'' \<notin> set (elem_at path r)"
proof -
  let ?P = "\<lambda>c. c \<noteq> CHR ''/''"
  have dw: "dropWhile ?P (drop r path) = drop (r + length (elem_at path r)) path"
    by (simp add: dropWhile_eq_drop add.commute)
  have hd: "dropWhile ?P (drop r path) = [] \<or> hd (dropWhile ?P (drop r path)) = CHR ''/''"
  proof (cases "dropWhile ?P (drop r path) = []")
    case False
    then show ?thesis using hd_dropWhile [OF False] by simp
  qed simp
  have "CHR ''/'' \<notin> set (elem_at path r)" by (blast dest: set_takeWhileD)
  moreover have "drop r path = elem_at path r @ dropWhile ?P (drop r path)"
    by (rule takeWhile_dropWhile_id [symmetric])
  ultimately show ?thesis using dw hd by simp
qed

lemma fold_clean_at:
  "fold (clean_step rt) (split_on (CHR ''/'') (drop r path)) acc =
   fold (clean_step rt) (split_on (CHR ''/'') (drop (r + length (elem_at path r)) path))
     (clean_step rt (elem_at path r) acc)"
proof -
  have s: "drop r path = elem_at path r @ drop (r + length (elem_at path r)) path"
    and h: "drop (r + length (elem_at path r)) path = [] \<or> hd (drop (r + length (elem_at path r)) path) = CHR ''/''"
    and n: "CHR ''/'' \<notin> set (elem_at path r)"
    using elem_at_split [of r path] by blast+
  show ?thesis by (subst s) (rule fold_clean_elem [OF n h])
qed

lemma join_slash_snoc: "join_slash (xs @ [e]) = join_slash xs @ (if xs = [] then [] else ''/'') @ e"
  by (induction xs rule: join_slash.induct) auto

lemma join_slash_Nil_iff: "\<forall>e \<in> set xs. e \<noteq> [] \<Longrightarrow> join_slash xs = [] \<longleftrightarrow> xs = []"
  by (induction xs rule: join_slash.induct) auto

lemma elem_at_dot:
  "r < length path \<Longrightarrow> path ! r = CHR ''.'' \<Longrightarrow> (r + 1 = length path \<or> path ! (r + 1) = CHR ''/'') \<Longrightarrow>
   elem_at path r = ''.''"
proof -
  assume r: "r < length path" and d: "path ! r = CHR ''.''"
    and e: "r + 1 = length path \<or> path ! (r + 1) = CHR ''/''"
  have s: "drop r path = CHR ''.'' # drop (Suc r) path" using r d by (metis Cons_nth_drop_Suc)
  show ?thesis
  proof (cases "r + 1 = length path")
    case True
    then show ?thesis using s by simp
  next
    case False
    then have "drop (Suc r) path = CHR ''/'' # drop (Suc (Suc r)) path"
      using r e by (metis Cons_nth_drop_Suc Suc_eq_plus1 Suc_lessI)
    then show ?thesis using s by simp
  qed
qed

lemma join_slash_append:
  "join_slash (xs @ ys) = join_slash xs @ (if xs = [] \<or> ys = [] then [] else ''/'') @ join_slash ys"
  by (induction xs rule: join_slash.induct) (auto simp: join_slash_Cons)

lemma join_slash_append_ne:
  "ys \<noteq> [] \<Longrightarrow> join_slash (xs @ ys) = join_slash xs @ (if xs = [] then [] else ''/'') @ join_slash ys"
  by (simp add: join_slash_append)

lemma render_snoc:
  "render rooted (acc @ [e]) = render rooted acc @ (if acc = [] then [] else ''/'') @ e"
  by (simp add: render_def join_slash_snoc)

text \<open>The buffer is ahead of its bound exactly when the last element can be taken back.\<close>

lemma dd_lt_iff:
  assumes ok: "acc_ok rooted acc"
  shows "dd_of rooted acc < length (render rooted acc) \<longleftrightarrow> acc \<noteq> [] \<and> last acc \<noteq> ''..''"
proof (cases rooted)
  case True
  have ne: "\<forall>e \<in> set acc. e \<noteq> []" and nd: "''..'' \<notin> set acc"
    using ok True by (simp_all add: acc_ok_def)
  have j: "join_slash acc = [] \<longleftrightarrow> acc = []" by (rule join_slash_Nil_iff [OF ne])
  have l: "acc \<noteq> [] \<Longrightarrow> last acc \<noteq> ''..''"
  proof
    assume "acc \<noteq> []" "last acc = ''..''"
    then show False using nd last_in_set [of acc] by simp
  qed
  have "dd_of rooted acc < length (render rooted acc) \<longleftrightarrow> join_slash acc \<noteq> []"
    using True by (simp add: dd_of_def render_def)
  then show ?thesis using j l by blast
next
  case False
  let ?P = "\<lambda>e. e = ''..''"
  let ?D = "takeWhile ?P acc" and ?R = "dropWhile ?P acc"
  have acc: "acc = ?D @ ?R" by simp
  have ne: "\<forall>e \<in> set ?R. e \<noteq> [] \<and> e \<noteq> ''..''"
  proof
    fix e assume e: "e \<in> set ?R"
    then have "e \<in> set acc" by (rule set_dropWhileD)
    then show "e \<noteq> [] \<and> e \<noteq> ''..''" using ok e unfolding acc_ok_def by blast
  qed
  show ?thesis
  proof (cases "?R = []")
    case True
    then have a: "acc = ?D" using acc by (metis append_Nil2)
    have "acc \<noteq> [] \<Longrightarrow> last acc = ''..''"
    proof -
      assume "acc \<noteq> []"
      then have "last acc \<in> set ?D" using a by (metis last_in_set)
      then show "last acc = ''..''" by (blast dest: set_takeWhileD)
    qed
    then show ?thesis using False a by (auto simp: dd_of_def render_def)
  next
    case R: False
    have j: "join_slash ?R \<noteq> []" using R ne join_slash_Nil_iff by blast
    have "join_slash acc = join_slash ?D @ (if ?D = [] then [] else ''/'') @ join_slash ?R"
      using join_slash_append_ne [OF R, of ?D] by (simp only: takeWhile_dropWhile_id)
    then have "length (join_slash ?D) < length (join_slash acc)" using j by simp
    moreover have "last acc = last ?R" using R by (metis acc last_appendR)
    moreover have "last ?R \<noteq> ''..''" using R ne last_in_set by blast
    moreover have "acc \<noteq> []" using R by auto
    ultimately show ?thesis using False by (simp add: dd_of_def render_def)
  qed
qed

lemma clean_step_skip [simp]: "clean_step rt [] acc = acc" "clean_step rt ''.'' acc = acc"
  by (simp_all add: clean_step_def)

lemma clean_inv_slash:
  assumes inv: "clean_inv rooted path r dotdot out acc" and r: "r < length path"
    and s: "path ! r = CHR ''/''"
  shows "clean_inv rooted path (r + 1) dotdot out acc \<and>
         clean_fold rooted (drop (r + 1) path) acc = clean_fold rooted (drop r path) acc"
proof -
  have "drop r path = CHR ''/'' # drop (Suc r) path" using r s by (metis Cons_nth_drop_Suc)
  then have "clean_fold rooted (drop r path) acc = clean_fold rooted (drop (r + 1) path) acc"
    by (simp add: fold_clean_slash)
  moreover have "clean_inv rooted path (r + 1) dotdot out acc"
    using inv r s unfolding clean_inv_def by auto
  ultimately show ?thesis by simp
qed

lemma clean_inv_dot:
  assumes inv: "clean_inv rooted path r dotdot out acc" and r: "r < length path"
    and d: "path ! r = CHR ''.''" and e: "r + 1 = length path \<or> path ! (r + 1) = CHR ''/''"
  shows "clean_inv rooted path (r + 1) dotdot out acc \<and>
         clean_fold rooted (drop (r + 1) path) acc = clean_fold rooted (drop r path) acc"
proof -
  have el: "elem_at path r = ''.''" by (rule elem_at_dot [OF r d e])
  have "clean_fold rooted (drop r path) acc = clean_fold rooted (drop (r + 1) path) acc"
    using fold_clean_at [of rooted r path acc] el by simp
  moreover have "clean_inv rooted path (r + 1) dotdot out acc"
    using inv r d e unfolding clean_inv_def by auto
  ultimately show ?thesis by simp
qed

lemma elem_at_dotdot:
  assumes "r + 1 < length path" "path ! r = CHR ''.''" "path ! (r + 1) = CHR ''.''"
    "r + 2 = length path \<or> path ! (r + 2) = CHR ''/''"
  shows "elem_at path r = ''..''"
proof -
  have s: "drop r path = CHR ''.'' # CHR ''.'' # drop (Suc (Suc r)) path"
    using assms(1-3) by (metis Cons_nth_drop_Suc Suc_eq_plus1 Suc_lessD)
  show ?thesis
  proof (cases "r + 2 = length path")
    case True
    then show ?thesis using s by simp
  next
    case False
    then have "drop (Suc (Suc r)) path = CHR ''/'' # drop (Suc (Suc (Suc r))) path"
      using assms(1,4) by (metis Cons_nth_drop_Suc Suc_eq_plus1 add_2_eq_Suc' Suc_lessI)
    then show ?thesis using s by simp
  qed
qed

lemma takeWhile_snoc_stop:
  "\<not> P e \<Longrightarrow> takeWhile P (xs @ [e]) = takeWhile P xs"
  by (induction xs) auto

lemma dd_of_snoc: "e \<noteq> ''..'' \<Longrightarrow> dd_of rooted (acc @ [e]) = dd_of rooted acc"
  by (simp add: dd_of_def takeWhile_snoc_stop)

lemma acc_ok_snoc:
  "acc_ok rooted acc \<Longrightarrow> e \<noteq> [] \<Longrightarrow> CHR ''/'' \<notin> set e \<Longrightarrow> e \<noteq> ''.'' \<Longrightarrow> e \<noteq> ''..'' \<Longrightarrow>
   acc_ok rooted (acc @ [e])"
proof -
  assume ok: "acc_ok rooted acc" and e: "e \<noteq> []" "CHR ''/'' \<notin> set e" "e \<noteq> ''.''" "e \<noteq> ''..''"
  have "set (dropWhile (\<lambda>e. e = ''..'') (acc @ [e])) \<subseteq> insert e (set (dropWhile (\<lambda>e. e = ''..'') acc))"
    by (induction acc) auto
  then have B: "\<forall>x \<in> set (dropWhile (\<lambda>e. e = ''..'') (acc @ [e])). x \<noteq> ''..''"
    using ok e(4) unfolding acc_ok_def by blast
  have A: "\<forall>x \<in> set (acc @ [e]). x \<noteq> [] \<and> CHR ''/'' \<notin> set x \<and> x \<noteq> ''.''"
    using ok e(1-3) unfolding acc_ok_def by simp
  have C: "rooted \<longrightarrow> ''..'' \<notin> set (acc @ [e])"
  proof
    assume rooted
    then have "''..'' \<notin> set acc" using ok unfolding acc_ok_def by blast
    then show "''..'' \<notin> set (acc @ [e])" using e(4) by simp
  qed
  show ?thesis unfolding acc_ok_def by (intro conjI A B C)
qed

lemma dropWhile_append_set: "set (dropWhile P xs) \<subseteq> set (dropWhile P (xs @ ys))"
  by (induction xs) auto

lemma butlast_dd:
  assumes "acc \<noteq> []" "last acc \<noteq> ''..''"
  shows "takeWhile (\<lambda>e. e = ''..'') (butlast acc) = takeWhile (\<lambda>e. e = ''..'') acc"
    and "set (dropWhile (\<lambda>e. e = ''..'') (butlast acc)) \<subseteq> set (dropWhile (\<lambda>e. e = ''..'') acc)"
proof -
  have acc: "acc = butlast acc @ [last acc]" using assms(1) by simp
  show "takeWhile (\<lambda>e. e = ''..'') (butlast acc) = takeWhile (\<lambda>e. e = ''..'') acc"
    by (subst (2) acc) (rule takeWhile_snoc_stop [symmetric], simp add: assms(2))
  show "set (dropWhile (\<lambda>e. e = ''..'') (butlast acc)) \<subseteq> set (dropWhile (\<lambda>e. e = ''..'') acc)"
    using dropWhile_append_set [of "\<lambda>e. e = ''..''" "butlast acc" "[last acc]"] acc by simp
qed

lemma dd_of_butlast: "acc \<noteq> [] \<Longrightarrow> last acc \<noteq> ''..'' \<Longrightarrow> dd_of rooted (butlast acc) = dd_of rooted acc"
  by (simp add: dd_of_def butlast_dd)

lemma acc_ok_butlast: "acc_ok rooted acc \<Longrightarrow> acc \<noteq> [] \<Longrightarrow> last acc \<noteq> ''..'' \<Longrightarrow> acc_ok rooted (butlast acc)"
  unfolding acc_ok_def using butlast_dd [of acc] by (meson in_set_butlastD subsetD)

lemma acc_all_dotdot:
  assumes "acc_ok rooted acc" "acc = [] \<or> last acc = ''..''"
  shows "\<forall>e \<in> set acc. e = ''..''"
proof -
  let ?R = "dropWhile (\<lambda>e. e = ''..'') acc"
  have "?R = []"
  proof (rule ccontr)
    assume R: "?R \<noteq> []"
    have "last acc = last ?R"
      using R by (metis last_appendR takeWhile_dropWhile_id)
    moreover have "last ?R \<noteq> ''..''" using R assms(1) last_in_set unfolding acc_ok_def by blast
    moreover have "acc \<noteq> []" using R by auto
    ultimately show False using assms(2) by simp
  qed
  then show ?thesis by (simp add: dropWhile_eq_Nil_conv)
qed

lemma dd_of_le_render: "dd_of rooted xs \<le> length (render rooted xs)"
proof (cases rooted)
  case False
  let ?D = "takeWhile (\<lambda>e. e = ''..'') xs" and ?R = "dropWhile (\<lambda>e. e = ''..'') xs"
  have "join_slash xs = join_slash ?D @ (if ?D = [] \<or> ?R = [] then [] else ''/'') @ join_slash ?R"
    using join_slash_append [of ?D ?R] by (simp only: takeWhile_dropWhile_id)
  then have "length (join_slash ?D) \<le> length (join_slash xs)" by (metis le_add1 length_append)
  then show ?thesis using False by (simp add: dd_of_def render_def)
qed (simp add: dd_of_def render_def)

lemma sep_elem_nth:
  assumes "CHR ''/'' \<notin> set x" "length P < i" "i < length (P @ S @ x)" "S = [] \<or> S = ''/''"
  shows "(P @ S @ x) ! i \<noteq> CHR ''/''"
proof -
  have "(P @ S @ x) ! i = (S @ x) ! (i - length P)" using assms(2) by (simp add: nth_append)
  moreover have "(S @ x) ! (i - length P) \<in> set x"
    using assms(2-4) by (auto simp: nth_append)
  ultimately show ?thesis using assms(1) by metis
qed

lemma render_butlast:
  "acc \<noteq> [] \<Longrightarrow> render rooted acc = render rooted (butlast acc) @
     (if butlast acc = [] then [] else ''/'') @ last acc"
  using render_snoc [of rooted "butlast acc" "last acc"] by simp

lemma clean_inv_back:
  assumes inv: "clean_inv rooted path r dotdot out acc" and r: "r + 1 < length path"
    and el: "elem_at path r = ''..''" and lt: "dotdot < lb_w out"
    and e: "r + 2 = length path \<or> path ! (r + 2) = CHR ''/''" and d1: "path ! (r + 1) = CHR ''.''"
  shows "clean_inv rooted path (r + 2) dotdot (backtrack dotdot (out\<lparr>lb_w := lb_w out - 1\<rparr>)) (butlast acc) \<and>
         clean_fold rooted (drop (r + 2) path) (butlast acc) = clean_fold rooted (drop r path) acc"
proof -
  have ok: "lb_ok out" and str: "lb_string out = render rooted acc" and dd: "dotdot = dd_of rooted acc"
    and aok: "acc_ok rooted acc" and wr: "lb_w out \<le> r" and s: "lb_s out = path"
    using inv by (simp_all add: clean_inv_def)
  have w: "lb_w out = length (render rooted acc)" using lb_length [OF ok] str by simp
  have ne: "acc \<noteq> []" and nl: "last acc \<noteq> ''..''" using dd_lt_iff [OF aok] lt dd w by auto
  define B where "B = butlast acc"
  define x where "x = last acc"
  define S where "S = (if B = [] then [] else ''/'')"
  have cont: "lb_string out = render rooted B @ S @ x"
    using render_butlast [OF ne] str by (simp add: B_def S_def x_def)
  have xin: "x \<in> set acc" using last_in_set [OF ne] by (simp add: x_def)
  have xne: "x \<noteq> []" and xs: "CHR ''/'' \<notin> set x"
    using aok xin unfolding acc_ok_def by blast+
  have xd: "x \<noteq> ''..''" using nl by (simp add: x_def)
  have lx: "0 < length x" using xne by simp
  define k where "k = length (render rooted B)"
  have wk: "lb_w out = k + length S + length x" using cont lb_length [OF ok] by (simp add: k_def)
  have ddk: "dotdot \<le> k"
    using dd_of_le_render [of rooted B] dd_of_butlast [OF ne nl] dd by (simp add: k_def B_def)
  have stop: "k \<le> dotdot \<or> lb_string out ! k = CHR ''/''"
  proof (cases "B = []")
    case True
    have "acc = butlast acc @ [last acc]" using ne by simp
    then have "acc = [x]" using True by (simp add: B_def x_def)
    then have "dd_of rooted acc = dd_of rooted [x]" by simp
    also have "\<dots> = k" using True xd by (simp add: dd_of_def k_def render_def)
    finally show ?thesis using dd by simp
  next
    case False
    then show ?thesis using cont by (simp add: S_def k_def nth_append)
  qed
  have run: "\<forall>i. k < i \<and> i \<le> lb_w out - 1 \<longrightarrow> dotdot < i \<and> lb_string out ! i \<noteq> CHR ''/''"
  proof (intro allI impI)
    fix i assume i: "k < i \<and> i \<le> lb_w out - 1"
    have "i < length (render rooted B) + (length S + length x)" using i lx wk unfolding k_def by arith
    then have "i < length (render rooted B @ S @ x)" by simp
    then have "(render rooted B @ S @ x) ! i \<noteq> CHR ''/''"
      using sep_elem_nth [OF xs, of "render rooted B" i S] i by (simp add: k_def S_def)
    then show "dotdot < i \<and> lb_string out ! i \<noteq> CHR ''/''" using i ddk cont by simp
  qed
  have bt: "backtrack dotdot (out\<lparr>lb_w := lb_w out - 1\<rparr>) = out\<lparr>lb_w := k\<rparr>"
    by (rule backtrack_stop [OF ok _ _ run stop]) (use wk lx in arith)+
  have tr: "lb_ok (out\<lparr>lb_w := k\<rparr>) \<and> lb_string (out\<lparr>lb_w := k\<rparr>) = render rooted B"
    using lb_truncate [OF ok, of k] wk cont by (simp add: k_def)
  have inv': "clean_inv rooted path (r + 2) dotdot (out\<lparr>lb_w := k\<rparr>) B"
    using inv tr r e d1 wk dd_of_butlast [OF ne nl] acc_ok_butlast [OF aok ne nl]
    unfolding clean_inv_def B_def by simp
  have "clean_fold rooted (drop r path) acc = clean_fold rooted (drop (r + 2) path) B"
    using fold_clean_at [of rooted r path acc] el ne nl by (simp add: clean_step_def B_def)
  then show ?thesis using inv' bt by (simp add: B_def)
qed

lemma clean_inv_pos: "clean_inv rooted path r dotdot out acc \<Longrightarrow> r < length path \<Longrightarrow> path ! r \<noteq> CHR ''/'' \<Longrightarrow>
   acc \<noteq> [] \<Longrightarrow> lb_w out < r"
  unfolding clean_inv_def by (metis One_nat_def Suc_pred neq0_conv less_Suc_eq_le le_neq_implies_less)

lemma clean_inv_up:
  assumes inv: "clean_inv False path r dotdot out acc" and r: "r + 1 < length path"
    and el: "elem_at path r = ''..''" and ge: "\<not> dotdot < lb_w out"
    and e: "r + 2 = length path \<or> path ! (r + 2) = CHR ''/''"
    and d0: "path ! r = CHR ''.''" and d1: "path ! (r + 1) = CHR ''.''"
  shows "let out1 = (if 0 < lb_w out then lb_append out (CHR ''/'') else out);
             out2 = lb_append (lb_append out1 (CHR ''.'')) (CHR ''.'')
         in clean_inv False path (r + 2) (lb_w out2) out2 (acc @ [''..'']) \<and>
            clean_fold False (drop (r + 2) path) (acc @ [''..'']) = clean_fold False (drop r path) acc"
proof -
  have ok: "lb_ok out" and str: "lb_string out = render False acc" and dd: "dotdot = dd_of False acc"
    and aok: "acc_ok False acc" and wr: "lb_w out \<le> r" and s: "lb_s out = path"
    using inv by (simp_all add: clean_inv_def)
  have w: "lb_w out = length (render False acc)" using lb_length [OF ok] str by simp
  have last: "acc = [] \<or> last acc = ''..''" using dd_lt_iff [OF aok] ge dd w by auto
  have all: "\<forall>e \<in> set acc. e = ''..''" by (rule acc_all_dotdot [OF aok last])
  have ne_el: "\<forall>e \<in> set acc. e \<noteq> []" using all by auto
  have w0: "0 < lb_w out \<longleftrightarrow> acc \<noteq> []"
    using w join_slash_Nil_iff [OF ne_el] by (simp add: render_def)
  define out1 where "out1 = (if 0 < lb_w out then lb_append out (CHR ''/'') else out)"
  define out2 where "out2 = lb_append (lb_append out1 (CHR ''.'')) (CHR ''.'')"
  have o1: "lb_ok out1 \<and> lb_s out1 = path \<and> lb_string out1 = render False acc @ (if acc = [] then [] else ''/'') \<and>
            lb_w out1 \<le> r"
  proof (cases "acc = []")
    case True
    then show ?thesis using ok s str wr w0 by (simp add: out1_def)
  next
    case False
    have "lb_w out < r" using clean_inv_pos [OF inv] r d0 False by simp
    then show ?thesis using lb_append_spec [OF ok, of "CHR ''/''"] s str w0 False r
      by (simp add: out1_def)
  qed
  have a1: "lb_ok (lb_append out1 (CHR ''.'')) \<and> lb_s (lb_append out1 (CHR ''.'')) = path \<and>
            lb_string (lb_append out1 (CHR ''.'')) = lb_string out1 @ ''.'' \<and>
            lb_w (lb_append out1 (CHR ''.'')) = Suc (lb_w out1)"
    using lb_append_spec [of out1 "CHR ''.''"] o1 r by simp
  have o2: "lb_ok out2 \<and> lb_s out2 = path \<and> lb_string out2 = render False (acc @ [''..'']) \<and>
            lb_w out2 \<le> r + 2"
    using lb_append_spec [of "lb_append out1 (CHR ''.'')" "CHR ''.''"] a1 o1 r
    by (simp add: out2_def render_snoc)
  have all2: "\<forall>e \<in> set (acc @ [''..'']). e = ''..''" using all by simp
  have dd2: "dd_of False (acc @ [''..'']) = lb_w out2"
    using o2 lb_length [of out2] all2 by (simp add: dd_of_def render_def takeWhile_eq_all_conv [THEN iffD2])
  have el2: "\<forall>e \<in> set (acc @ [''..'']). e \<noteq> [] \<and> CHR ''/'' \<notin> set e \<and> e \<noteq> ''.''"
  proof
    fix e assume "e \<in> set (acc @ [''..''])"
    then have "e = ''..''" using all2 by blast
    then show "e \<noteq> [] \<and> CHR ''/'' \<notin> set e \<and> e \<noteq> ''.''" by simp
  qed
  have "dropWhile (\<lambda>e. e = ''..'') (acc @ [''..'']) = []" using all2 by (simp add: dropWhile_eq_Nil_conv)
  then have aok2: "acc_ok False (acc @ [''..''])" using el2 by (simp add: acc_ok_def)
  have inv2: "clean_inv False path (r + 2) (lb_w out2) out2 (acc @ [''..''])"
    using o2 dd2 aok2 r e d1 unfolding clean_inv_def by simp
  have "clean_fold False (drop r path) acc = clean_fold False (drop (r + 2) path) (acc @ [''..''])"
    using fold_clean_at [of False r path acc] el last by (auto simp: clean_step_def)
  then show ?thesis using inv2 by (simp add: out1_def [symmetric] out2_def [symmetric] Let_def)
qed

lemma clean_inv_root_up:
  assumes inv: "clean_inv True path r dotdot out acc" and r: "r + 1 < length path"
    and el: "elem_at path r = ''..''" and ge: "\<not> dotdot < lb_w out"
    and e: "r + 2 = length path \<or> path ! (r + 2) = CHR ''/''" and d1: "path ! (r + 1) = CHR ''.''"
  shows "clean_inv True path (r + 2) dotdot out acc \<and>
         clean_fold True (drop (r + 2) path) acc = clean_fold True (drop r path) acc"
proof -
  have ok: "lb_ok out" and str: "lb_string out = render True acc" and dd: "dotdot = dd_of True acc"
    and aok: "acc_ok True acc"
    using inv by (simp_all add: clean_inv_def)
  have w: "lb_w out = length (render True acc)" using lb_length [OF ok] str by simp
  have last: "acc = [] \<or> last acc = ''..''" using dd_lt_iff [OF aok] ge dd w by auto
  have "''..'' \<notin> set acc" using aok by (simp add: acc_ok_def)
  then have nil: "acc = []" using last last_in_set by metis
  have "clean_fold True (drop r path) acc = clean_fold True (drop (r + 2) path) acc"
    using fold_clean_at [of True r path acc] el nil by (simp add: clean_step_def)
  moreover have "clean_inv True path (r + 2) dotdot out acc"
    using inv r e d1 unfolding clean_inv_def by auto
  ultimately show ?thesis by simp
qed

lemma elem_at_ne: "r < length path \<Longrightarrow> path ! r \<noteq> CHR ''/'' \<Longrightarrow> elem_at path r \<noteq> []"
  by (simp add: Cons_nth_drop_Suc [symmetric])

lemma elem_at_bounds:
  assumes "r \<le> length path"
  shows "r + length (elem_at path r) \<le> length path \<and>
   (r + length (elem_at path r) = length path \<or> path ! (r + length (elem_at path r)) = CHR ''/'')"
proof -
  let ?n = "r + length (elem_at path r)"
  have "length (elem_at path r) \<le> length (drop r path)" by (rule length_takeWhile_le)
  then have le: "?n \<le> length path" using assms by simp
  have "drop ?n path = [] \<or> hd (drop ?n path) = CHR ''/''" using elem_at_split [of r path] by blast
  then show ?thesis using le by (cases "?n < length path") (auto simp: hd_drop_conv_nth)
qed

lemma elem_at_nth:
  assumes "r \<le> length path" "i < length (elem_at path r)"
  shows "path ! (r + i) = elem_at path r ! i"
proof -
  have "drop r path = elem_at path r @ drop (r + length (elem_at path r)) path"
    using elem_at_split [of r path] by blast
  then have "drop r path ! i = elem_at path r ! i" using assms(2) by (metis nth_append)
  then show ?thesis using assms by simp
qed

lemma elem_at_last:
  assumes "r \<le> length path" "elem_at path r \<noteq> []"
  shows "path ! (r + length (elem_at path r) - 1) \<noteq> CHR ''/''"
proof -
  let ?e = "elem_at path r"
  have i: "length ?e - 1 < length ?e" using assms(2) by simp
  have "path ! (r + (length ?e - 1)) = ?e ! (length ?e - 1)" by (rule elem_at_nth [OF assms(1) i])
  moreover have "?e ! (length ?e - 1) \<in> set ?e" using i by (rule nth_mem)
  moreover have "CHR ''/'' \<notin> set ?e" using elem_at_split [of r path] by blast
  moreover have "r + length ?e - 1 = r + (length ?e - 1)" using i by arith
  ultimately show ?thesis by metis
qed

lemma elem_at_is_dot:
  assumes "r < length path" "elem_at path r = ''.''"
  shows "path ! r = CHR ''.'' \<and> (r + 1 = length path \<or> path ! (r + 1) = CHR ''/'')"
  using elem_at_nth [of r path 0] elem_at_bounds [of r path] assms by simp

lemma elem_at_is_dotdot:
  assumes "r < length path" "elem_at path r = ''..''"
  shows "path ! r = CHR ''.'' \<and> path ! (r + 1) = CHR ''.'' \<and> r + 1 < length path \<and>
         (r + 2 = length path \<or> path ! (r + 2) = CHR ''/'')"
  using elem_at_nth [of r path 0] elem_at_nth [of r path 1] elem_at_bounds [of r path] assms
  by (simp add: numeral_2_eq_2)

lemma sep_iff:
  assumes "acc_ok rooted acc" "w = length (render rooted acc)"
  shows "(rooted \<and> w \<noteq> 1 \<or> \<not> rooted \<and> w \<noteq> 0) \<longleftrightarrow> acc \<noteq> []"
proof -
  have "\<forall>e \<in> set acc. e \<noteq> []" using assms(1) unfolding acc_ok_def by blast
  then have "join_slash acc = [] \<longleftrightarrow> acc = []" by (rule join_slash_Nil_iff)
  then show ?thesis using assms(2) by (auto simp: render_def)
qed

lemma clean_inv_elem:
  assumes inv: "clean_inv rooted path r dotdot out acc" and r: "r < length path"
    and ns: "path ! r \<noteq> CHR ''/''" and nd: "elem_at path r \<noteq> ''.''" and ndd: "elem_at path r \<noteq> ''..''"
    and out1: "out1 = (if rooted \<and> lb_w out \<noteq> 1 \<or> \<not> rooted \<and> lb_w out \<noteq> 0
                       then lb_append out (CHR ''/'') else out)"
    and cp: "copy_elem path r out1 = (r', out2)"
  shows "clean_inv rooted path r' dotdot out2 (acc @ [elem_at path r]) \<and>
         clean_fold rooted (drop r' path) (acc @ [elem_at path r]) = clean_fold rooted (drop r path) acc"
proof -
  let ?e = "elem_at path r"
  have ok: "lb_ok out" and str: "lb_string out = render rooted acc" and dd: "dotdot = dd_of rooted acc"
    and aok: "acc_ok rooted acc" and wr: "lb_w out \<le> r" and s: "lb_s out = path"
    using inv by (simp_all add: clean_inv_def)
  have w: "lb_w out = length (render rooted acc)" using lb_length [OF ok] str by simp
  have ene: "?e \<noteq> []" by (rule elem_at_ne [OF r ns])
  have es: "CHR ''/'' \<notin> set ?e" using elem_at_split [of r path] by blast
  have o1: "lb_ok out1 \<and> lb_s out1 = path \<and>
            lb_string out1 = render rooted acc @ (if acc = [] then [] else ''/'') \<and> lb_w out1 \<le> r"
  proof (cases "acc = []")
    case True
    have "\<not> (rooted \<and> lb_w out \<noteq> 1 \<or> \<not> rooted \<and> lb_w out \<noteq> 0)" using sep_iff [OF aok w] True by blast
    then have "out1 = out" using out1 by (simp only: if_False)
    then show ?thesis using ok s str wr True by simp
  next
    case False
    have "lb_w out < r" using clean_inv_pos [OF inv r ns False] .
    moreover have "out1 = lb_append out (CHR ''/'')" using sep_iff [OF aok w] False out1 by simp
    ultimately show ?thesis using lb_append_spec [OF ok, of "CHR ''/''"] s str False r by simp
  qed
  have c: "r' = r + length ?e \<and> lb_ok out2 \<and> lb_s out2 = path \<and>
           lb_string out2 = lb_string out1 @ ?e \<and> lb_w out2 \<le> r'"
    using copy_elem_spec [of out1 path r r' out2] o1 cp by simp
  have rn: "r \<le> length path" using r by simp
  have inv2: "clean_inv rooted path r' dotdot out2 (acc @ [?e])"
    unfolding clean_inv_def
  proof (intro conjI)
    show "lb_string out2 = render rooted (acc @ [?e])" using c o1 by (simp add: render_snoc)
    show "dotdot = dd_of rooted (acc @ [?e])" using dd dd_of_snoc [OF ndd] by simp
    show "acc_ok rooted (acc @ [?e])" by (rule acc_ok_snoc [OF aok ene es nd ndd])
    show "r' \<le> length path" using c elem_at_bounds [OF rn] by simp
    show "r' = 0 \<longrightarrow> acc @ [?e] = [] \<and> \<not> rooted" using c ene by simp
    show "acc @ [?e] \<noteq> [] \<and> 0 < r' \<and> path ! (r' - 1) = CHR ''/'' \<longrightarrow> lb_w out2 < r'"
      using c elem_at_last [OF rn ene] by simp
    show "r' = 0 \<or> path ! (r' - 1) = CHR ''/'' \<or> r' = length path \<or> path ! r' = CHR ''/''"
      using c elem_at_bounds [OF rn] by auto
  qed (use c in simp_all)
  have "clean_step rooted ?e acc = acc @ [?e]" using ene nd ndd by (simp add: clean_step_def)
  then have "clean_fold rooted (drop r path) acc = clean_fold rooted (drop r' path) (acc @ [?e])"
    using fold_clean_at [of rooted r path acc] c by simp
  then show ?thesis using inv2 by simp
qed

lemma clean_iter_inv:
  assumes inv: "clean_inv rooted path r dotdot out acc" and r: "r < length path"
    and it: "clean_iter rooted path r dotdot out = (r', dd', out')"
  shows "\<exists>acc'. clean_inv rooted path r' dd' out' acc' \<and>
           clean_fold rooted (drop r' path) acc' = clean_fold rooted (drop r path) acc"
proof -
  consider (slash) "path ! r = CHR ''/''"
    | (dot) "path ! r \<noteq> CHR ''/''" "path ! r = CHR ''.'' \<and> (r + 1 = length path \<or> path ! (r + 1) = CHR ''/'')"
    | (dotdot) "path ! r \<noteq> CHR ''/''" "\<not> (path ! r = CHR ''.'' \<and> (r + 1 = length path \<or> path ! (r + 1) = CHR ''/''))"
        "path ! r = CHR ''.'' \<and> path ! (r + 1) = CHR ''.'' \<and> (r + 2 = length path \<or> path ! (r + 2) = CHR ''/'')"
    | (elem) "path ! r \<noteq> CHR ''/''" "\<not> (path ! r = CHR ''.'' \<and> (r + 1 = length path \<or> path ! (r + 1) = CHR ''/''))"
        "\<not> (path ! r = CHR ''.'' \<and> path ! (r + 1) = CHR ''.'' \<and> (r + 2 = length path \<or> path ! (r + 2) = CHR ''/''))"
    by blast
  then show ?thesis
  proof cases
    case slash
    then have "clean_iter rooted path r dotdot out = (r + 1, dotdot, out)" by (simp add: clean_iter_def)
    then have "(r', dd', out') = (r + 1, dotdot, out)" using it by simp
    then show ?thesis using clean_inv_slash [OF inv r slash] by auto
  next
    case dot
    then have "clean_iter rooted path r dotdot out = (r + 1, dotdot, out)" by (simp add: clean_iter_def)
    then have "(r', dd', out') = (r + 1, dotdot, out)" using it by simp
    then show ?thesis using clean_inv_dot [OF inv r] dot by auto
  next
    case dotdot
    have r1: "r + 1 < length path" using dotdot r by auto
    have el: "elem_at path r = ''..''" using dotdot r1 by (intro elem_at_dotdot) auto
    have e: "r + 2 = length path \<or> path ! (r + 2) = CHR ''/''" and d1: "path ! (r + 1) = CHR ''.''"
      and d0: "path ! r = CHR ''.''" using dotdot by auto
    show ?thesis
    proof (cases "dotdot < lb_w out")
      case True
      then have "clean_iter rooted path r dotdot out = (r + 2, dotdot, backtrack dotdot (out\<lparr>lb_w := lb_w out - 1\<rparr>))"
        using dotdot by (simp add: clean_iter_def)
      then have "(r', dd', out') = (r + 2, dotdot, backtrack dotdot (out\<lparr>lb_w := lb_w out - 1\<rparr>))"
        using it by simp
      then show ?thesis using clean_inv_back [OF inv r1 el True e d1] by auto
    next
      case ge: False
      show ?thesis
      proof (cases rooted)
        case True
        then have "clean_iter rooted path r dotdot out = (r + 2, dotdot, out)"
          using dotdot ge by (simp add: clean_iter_def)
        then have "(r', dd', out') = (r + 2, dotdot, out)" using it by simp
        moreover have inv': "clean_inv True path r dotdot out acc" using inv True by simp
        ultimately show ?thesis using clean_inv_root_up [OF inv' r1 el ge e d1] True by auto
      next
        case False
        let ?out1 = "if 0 < lb_w out then lb_append out (CHR ''/'') else out"
        let ?out2 = "lb_append (lb_append ?out1 (CHR ''.'')) (CHR ''.'')"
        have "clean_iter rooted path r dotdot out = (r + 2, lb_w ?out2, ?out2)"
          using dotdot ge False by (simp add: clean_iter_def Let_def)
        then have "(r', dd', out') = (r + 2, lb_w ?out2, ?out2)" using it by simp
        moreover have inv': "clean_inv False path r dotdot out acc" using inv False by simp
        ultimately show ?thesis using clean_inv_up [OF inv' r1 el ge e d0 d1] False by (auto simp: Let_def)
      qed
    qed
  next
    case elem
    have nd: "elem_at path r \<noteq> ''.''" using elem_at_is_dot [OF r] elem by blast
    have ndd: "elem_at path r \<noteq> ''..''" using elem_at_is_dotdot [OF r] elem by blast
    define out1 where "out1 = (if rooted \<and> lb_w out \<noteq> 1 \<or> \<not> rooted \<and> lb_w out \<noteq> 0
                               then lb_append out (CHR ''/'') else out)"
    obtain r2 out2 where cp: "copy_elem path r out1 = (r2, out2)" by (cases "copy_elem path r out1")
    have "clean_iter rooted path r dotdot out = (r2, dotdot, out2)"
      unfolding clean_iter_def Let_def
      by (simp only: if_not_P [OF elem(1)] if_not_P [OF elem(2)] if_not_P [OF elem(3)]
          out1_def [symmetric] cp prod.case)
    then have "(r', dd', out') = (r2, dotdot, out2)" using it by simp
    then show ?thesis using clean_inv_elem [OF inv r elem(1) nd ndd out1_def cp] by auto
  qed
qed

lemma clean_loop_inv:
  "clean_inv rooted path r dotdot out acc \<Longrightarrow>
   lb_ok (clean_loop rooted path r dotdot out) \<and> lb_s (clean_loop rooted path r dotdot out) = path \<and>
   lb_string (clean_loop rooted path r dotdot out) = render rooted (clean_fold rooted (drop r path) acc)"
proof (induction rooted path r dotdot out arbitrary: acc rule: clean_loop.induct)
  case (1 rooted path r dotdot out)
  show ?case
  proof (cases "r < length path")
    case True
    obtain r' dd' out' where it: "clean_iter rooted path r dotdot out = (r', dd', out')"
      by (metis prod_cases3)
    obtain acc' where a: "clean_inv rooted path r' dd' out' acc'"
      and f: "clean_fold rooted (drop r' path) acc' = clean_fold rooted (drop r path) acc"
      using clean_iter_inv [OF "1.prems" True it] by blast
    have "clean_loop rooted path r dotdot out = clean_loop rooted path r' dd' out'"
      by (subst clean_loop.simps) (simp add: True it)
    then show ?thesis using "1.IH" [OF True it [symmetric] refl a] f by simp
  next
    case False
    then have "drop r path = []" by simp
    moreover have "clean_loop rooted path r dotdot out = out" using False by (subst clean_loop.simps) simp
    ultimately show ?thesis using "1.prems" by (simp add: clean_inv_def)
  qed
qed

lemma path_clean_render:
  "path_clean p = (let res = render (p \<noteq> [] \<and> hd p = CHR ''/'')
                      (clean_fold (p \<noteq> [] \<and> hd p = CHR ''/'') p []) in if res = [] then ''.'' else res)"
  by (simp add: path_clean_def render_def Let_def)

text \<open>
  C23. Go's \<open>path.Clean\<close>, run as the byte loop of path/path.go with its lazy
  buffer, computes \<open>path_clean\<close> on every string: the loop and the element-wise
  statement (drop empty and \<open>.\<close> elements, let \<open>..\<close> remove the element before it or
  vanish at the root, \<open>.\<close> for an empty result) agree.
\<close>

theorem clean_go_eq: "clean_go p = path_clean p"
proof (cases p)
  case Nil
  then show ?thesis by (simp add: clean_go_def path_clean_def clean_step_def)
next
  case (Cons c t)
  let ?out0 = "\<lparr>lb_s = p, lb_buf = None, lb_w = 0\<rparr>"
  have ok0: "lb_ok ?out0" by (simp add: lb_ok_def)
  show ?thesis
  proof (cases "c = CHR ''/''")
    case True
    let ?out1 = "lb_append ?out0 (CHR ''/'')"
    have o1: "lb_ok ?out1 \<and> lb_string ?out1 = ''/'' \<and> lb_s ?out1 = p \<and> lb_w ?out1 = 1"
      using lb_append_spec [OF ok0, of "CHR ''/''"] Cons by (simp add: lb_string_def)
    have inv: "clean_inv True p 1 1 ?out1 []"
      using o1 Cons True by (simp add: clean_inv_def render_def dd_of_def acc_ok_def)
    have loop: "lb_ok (clean_loop True p 1 1 ?out1) \<and> lb_s (clean_loop True p 1 1 ?out1) = p \<and>
        lb_string (clean_loop True p 1 1 ?out1) = render True (clean_fold True (drop 1 p) [])"
      by (rule clean_loop_inv [OF inv])
    have f: "clean_fold True p [] = clean_fold True (drop 1 p) []"
      using Cons True fold_clean_slash by simp
    have w: "lb_w (clean_loop True p 1 1 ?out1) = length (lb_string (clean_loop True p 1 1 ?out1))"
      using lb_length loop by metis
    show ?thesis
      using loop w f Cons True by (simp add: clean_go_def path_clean_render Let_def)
  next
    case False
    have inv: "clean_inv False p 0 0 ?out0 []"
      using ok0 by (simp add: clean_inv_def render_def dd_of_def acc_ok_def lb_string_def)
    have loop: "lb_ok (clean_loop False p 0 0 ?out0) \<and> lb_s (clean_loop False p 0 0 ?out0) = p \<and>
        lb_string (clean_loop False p 0 0 ?out0) = render False (clean_fold False p [])"
      using clean_loop_inv [OF inv] by simp
    have w: "lb_w (clean_loop False p 0 0 ?out0) = length (lb_string (clean_loop False p 0 0 ?out0))"
      using lb_length loop by metis
    show ?thesis
      using loop w Cons False by (simp add: clean_go_def path_clean_render Let_def)
  qed
qed


subsection \<open>Termination and size\<close>

lemma copy_elem_le: "r \<le> fst (copy_elem p r b)"
proof (induction p r b rule: copy_elem.induct)
  case (1 path r b)
  then show ?case by (cases "r < length path \<and> path ! r \<noteq> CHR ''/''") (simp_all add: copy_elem.simps)
qed

lemma copy_elem_bound: "r \<le> length p \<Longrightarrow> fst (copy_elem p r b) \<le> length p"
proof (induction p r b rule: copy_elem.induct)
  case (1 path r b)
  then show ?case by (cases "r < length path \<and> path ! r \<noteq> CHR ''/''") (simp_all add: copy_elem.simps)
qed

lemma copy_elem_adv: "r < length p \<Longrightarrow> p ! r \<noteq> CHR ''/'' \<Longrightarrow> r < fst (copy_elem p r b)"
  using copy_elem_le [where p = p and r = "r + 1" and b = "lb_append b (p ! r)"]
  by (subst copy_elem.simps) simp

text \<open>
  C24. Termination of the main loop of \<open>path.Clean\<close> (\<open>for r < n\<close>): every pass of
  its body moves the read index forward, by one for a slash or a \<open>.\<close> element, by two
  for \<open>..\<close>, past the whole element otherwise, and never beyond \<open>len(path)\<close>; so the
  loop ends after at most \<open>len(path)\<close> passes.
\<close>

theorem clean_iter_advances:
  "r < length path \<Longrightarrow>
   r < fst (clean_iter rooted path r dotdot out) \<and> fst (clean_iter rooted path r dotdot out) \<le> length path"
  using copy_elem_adv [of r path] copy_elem_bound [of r path]
  unfolding clean_iter_def Let_def by (simp add: split_def)

text \<open>
  C25. Bounds of the lazy buffer: the write index of \<open>lazybuf\<close> never passes the
  length of the input, so \<open>Clean\<close> of a non-empty path is never longer than the path.
\<close>

theorem clean_go_length: "p \<noteq> [] \<Longrightarrow> length (clean_go p) \<le> length p"
proof -
  assume ne: "p \<noteq> []"
  let ?out0 = "\<lparr>lb_s = p, lb_buf = None, lb_w = 0\<rparr>"
  have ok0: "lb_ok ?out0" by (simp add: lb_ok_def)
  let ?rooted = "p ! 0 = CHR ''/''"
  define L where "L = (if ?rooted then clean_loop ?rooted p 1 1 (lb_append ?out0 (CHR ''/''))
                       else clean_loop ?rooted p 0 0 ?out0)"
  have "lb_ok L \<and> lb_s L = p"
  proof (cases ?rooted)
    case True
    let ?out1 = "lb_append ?out0 (CHR ''/'')"
    have o1: "lb_ok ?out1 \<and> lb_string ?out1 = ''/'' \<and> lb_s ?out1 = p \<and> lb_w ?out1 = 1"
      using lb_append_spec [OF ok0, of "CHR ''/''"] ne True by (simp add: lb_string_def hd_conv_nth take_Suc_conv_app_nth)
    have "1 \<le> length p" using ne by (cases p) auto
    then have inv: "clean_inv True p 1 1 ?out1 []"
      using o1 True by (simp add: clean_inv_def render_def dd_of_def acc_ok_def)
    then show ?thesis using clean_loop_inv [OF inv] True by (simp add: L_def)
  next
    case False
    have inv: "clean_inv False p 0 0 ?out0 []"
      using ok0 by (simp add: clean_inv_def render_def dd_of_def acc_ok_def lb_string_def)
    then show ?thesis using clean_loop_inv [OF inv] False by (simp add: L_def)
  qed
  then have ok: "lb_ok L" and s: "lb_s L = p" by simp_all
  have "lb_w L \<le> length (lb_s L)" using ok by (simp add: lb_ok_def)
  then have "length (lb_string L) \<le> length p" using lb_length [OF ok] s by simp
  moreover have "1 \<le> length p" using ne by (cases p) auto
  ultimately show ?thesis using ne by (simp add: clean_go_def L_def [symmetric] Let_def)
qed

theorem clean_iter_advances_witness:
  "0 < length ''a/b'' \<and>
   0 < fst (clean_iter False ''a/b'' 0 0 \<lparr>lb_s = ''a/b'', lb_buf = None, lb_w = 0\<rparr>) \<and>
   fst (clean_iter False ''a/b'' 0 0 \<lparr>lb_s = ''a/b'', lb_buf = None, lb_w = 0\<rparr>) \<le> length ''a/b''"
  using clean_iter_advances [of 0 "''a/b''" False 0 "\<lparr>lb_s = ''a/b'', lb_buf = None, lb_w = 0\<rparr>"] by simp

theorem clean_go_length_witness:
  "''/gophers/./:id'' \<noteq> [] \<and> length (clean_go ''/gophers/./:id'') \<le> length ''/gophers/./:id''"
  using clean_go_length [of "''/gophers/./:id''"] by simp

subsection \<open>Normal form of cleaned paths\<close>

lemma acc_ok_clean_step:
  "acc_ok rooted acc \<Longrightarrow> CHR ''/'' \<notin> set e \<Longrightarrow> acc_ok rooted (clean_step rooted e acc)"
proof -
  assume ok: "acc_ok rooted acc" and e: "CHR ''/'' \<notin> set e"
  consider "e = [] \<or> e = ''.''" | "e = ''..''" | "e \<noteq> [] \<and> e \<noteq> ''.'' \<and> e \<noteq> ''..''" by blast
  then show ?thesis
  proof cases
    case 1
    then show ?thesis using ok by (auto simp: clean_step_def)
  next
    case 2
    show ?thesis
    proof (cases "acc \<noteq> [] \<and> last acc \<noteq> ''..''")
      case True
      have "clean_step rooted e acc = butlast acc" unfolding clean_step_def using True 2 by simp
      then show ?thesis using acc_ok_butlast [OF ok] True by simp
    next
      case False
      then have all: "\<forall>x \<in> set acc. x = ''..''" using acc_all_dotdot [OF ok] by blast
      show ?thesis
      proof (cases rooted)
        case True
        have "clean_step rooted e acc = acc" unfolding clean_step_def using False True 2 by auto
        then show ?thesis using ok by simp
      next
        case nr: False
        have st: "clean_step rooted e acc = acc @ [''..'']" unfolding clean_step_def using False nr 2 by auto
        have all': "\<forall>x \<in> set (acc @ [''..'']). x = ''..''" using all by simp
        have "acc_ok rooted (acc @ [''..''])"
          unfolding acc_ok_def
        proof (intro conjI)
          show "\<forall>x \<in> set (acc @ [''..'']). x \<noteq> [] \<and> CHR ''/'' \<notin> set x \<and> x \<noteq> ''.''" using all' by auto
          show "\<forall>x \<in> set (dropWhile (\<lambda>x. x = ''..'') (acc @ [''..''])). x \<noteq> ''..''"
            using all' by (simp add: dropWhile_eq_Nil_conv)
          show "rooted \<longrightarrow> ''..'' \<notin> set (acc @ [''..''])" using nr by simp
        qed
        then show ?thesis using st by simp
      qed
    qed
  next
    case 3
    then show ?thesis using acc_ok_snoc [OF ok _ e] by (simp add: clean_step_def)
  qed
qed

lemma fold_clean_ok:
  "\<forall>e \<in> set es. CHR ''/'' \<notin> set e \<Longrightarrow> acc_ok rooted acc \<Longrightarrow>
   acc_ok rooted (fold (clean_step rooted) es acc) \<and>
   set (fold (clean_step rooted) es acc) \<subseteq> set acc \<union> set es"
proof (induction es arbitrary: acc)
  case (Cons e es)
  have ok: "acc_ok rooted (clean_step rooted e acc)" using acc_ok_clean_step Cons.prems by simp
  have "set (clean_step rooted e acc) \<subseteq> set acc \<union> {e}"
    by (auto simp: clean_step_def dest: in_set_butlastD)
  then show ?case using Cons.IH [OF _ ok] Cons.prems by auto
qed simp

lemma path_clean_rooted:
  assumes "p \<noteq> []" "hd p = CHR ''/''"
  shows "\<exists>acc. acc_ok True acc \<and> path_clean p = render True acc \<and> set (join_slash acc) \<subseteq> set p"
proof -
  let ?acc = "fold (clean_step True) (split_on (CHR ''/'') p) []"
  have nd: "\<forall>e \<in> set (split_on (CHR ''/'') p). CHR ''/'' \<notin> set e" using split_on_no_delim_elems by blast
  have f: "acc_ok True ?acc \<and> set ?acc \<subseteq> set (split_on (CHR ''/'') p)"
  proof -
    have a0: "acc_ok True []" by (simp add: acc_ok_def)
    show ?thesis using fold_clean_ok [OF nd a0] by simp
  qed
  have "(\<Union>e \<in> set ?acc. set e) \<subseteq> set p" using f split_on_elem_set by blast
  moreover have "CHR ''/'' \<in> set p" using assms by (cases p) auto
  ultimately have "set (join_slash ?acc) \<subseteq> set p" using set_join_slash [of ?acc] by blast
  moreover have "path_clean p = render True ?acc"
    using assms by (simp add: path_clean_def render_def Let_def)
  ultimately show ?thesis using f by blast
qed

lemma render_root_elems:
  assumes "acc_ok True acc"
  shows "''.'' \<notin> set (split_on (CHR ''/'') (render True acc)) \<and> ''..'' \<notin> set (split_on (CHR ''/'') (render True acc))"
proof (cases "acc = []")
  case True
  then show ?thesis by (simp add: render_def)
next
  case False
  have "\<forall>e \<in> set acc. CHR ''/'' \<notin> set e" using assms by (simp add: acc_ok_def)
  then have "split_on (CHR ''/'') (render True acc) = [] # acc"
    using False by (simp add: render_def split_on_join_slash)
  then show ?thesis using assms by (auto simp: acc_ok_def)
qed

lemma path_clean_root_elems:
  assumes "p \<noteq> []" "hd p = CHR ''/''"
  shows "''.'' \<notin> set (split_on (CHR ''/'') (path_clean p)) \<and> ''..'' \<notin> set (split_on (CHR ''/'') (path_clean p))
    \<and> path_clean p \<noteq> [] \<and> hd (path_clean p) = CHR ''/'' \<and> set (path_clean p) \<subseteq> set p"
proof -
  obtain acc where a: "acc_ok True acc" "path_clean p = render True acc" "set (join_slash acc) \<subseteq> set p"
    using path_clean_rooted [OF assms] by blast
  have "CHR ''/'' \<in> set p" using assms by (cases p) auto
  then show ?thesis using a render_root_elems [OF a(1)] by (simp add: render_def)
qed

lemma fold_clean_ok_id: "acc_ok rooted (pre @ es) \<Longrightarrow> fold (clean_step rooted) es pre = pre @ es"
proof (induction es arbitrary: pre)
  case (Cons e es)
  have ok: "acc_ok rooted (pre @ e # es)" using Cons.prems .
  have mem: "e \<in> set (pre @ e # es)" by simp
  have e: "e \<noteq> []" "e \<noteq> ''.''" using ok mem unfolding acc_ok_def by blast+
  have "clean_step rooted e pre = pre @ [e]"
  proof (cases "e = ''..''")
    case True
    have "\<forall>x \<in> set (dropWhile (\<lambda>x. x = ''..'') (pre @ ''..'' # es)). x \<noteq> ''..''"
      using ok True unfolding acc_ok_def by blast
    then have "\<forall>x \<in> set pre. x = ''..''" by (rule dropWhile_prefix)
    then have "\<not> (pre \<noteq> [] \<and> last pre \<noteq> ''..'')" using last_in_set by metis
    moreover have "\<not> rooted" using ok True mem unfolding acc_ok_def by blast
    ultimately show ?thesis unfolding clean_step_def using True by auto
  next
    case False
    then show ?thesis using e unfolding clean_step_def by simp
  qed
  then show ?case using Cons.IH [of "pre @ [e]"] ok by simp
qed simp

lemma acc_ok_elems: "acc_ok rooted acc \<Longrightarrow> \<forall>e \<in> set acc. e \<noteq> [] \<and> CHR ''/'' \<notin> set e"
  unfolding acc_ok_def by blast

text \<open>The pieces of \<open>path_clean\<close>: whether the path is rooted, and the cleaned elements.\<close>

lemma path_clean_cases:
  obtains acc rooted where "acc_ok rooted acc" "rooted \<longleftrightarrow> p \<noteq> [] \<and> hd p = CHR ''/''"
    "path_clean p = (let res = render rooted acc in if res = [] then ''.'' else res)"
proof -
  let ?r = "p \<noteq> [] \<and> hd p = CHR ''/''"
  let ?acc = "fold (clean_step ?r) (split_on (CHR ''/'') p) []"
  have nd: "\<forall>e \<in> set (split_on (CHR ''/'') p). CHR ''/'' \<notin> set e" using split_on_no_delim_elems by blast
  have "acc_ok ?r []" by (simp add: acc_ok_def)
  then have "acc_ok ?r ?acc" using fold_clean_ok [OF nd] by blast
  moreover have "path_clean p = (let res = render ?r ?acc in if res = [] then ''.'' else res)"
    by (simp add: path_clean_def render_def Let_def)
  ultimately show ?thesis using that by blast
qed

lemma path_clean_render_ok:
  assumes ok: "acc_ok rooted acc" and ne: "render rooted acc \<noteq> []"
  shows "path_clean (render rooted acc) = render rooted acc"
proof (cases "acc = []")
  case True
  then have r: rooted using ne by (cases rooted) (simp_all add: render_def)
  then show ?thesis using True by (simp add: render_def path_clean_def)
next
  case False
  have el: "\<forall>e \<in> set acc. e \<noteq> [] \<and> CHR ''/'' \<notin> set e" using acc_ok_elems [OF ok] .
  then have sp: "split_on (CHR ''/'') (join_slash acc) = acc" using False split_on_join_slash by blast
  have js: "join_slash acc \<noteq> [] \<and> hd (join_slash acc) \<noteq> CHR ''/''" using join_slash_elems [OF False el] by blast
  have fid: "fold (clean_step rooted) acc [] = acc" using fold_clean_ok_id [of rooted "[]" acc] ok by simp
  show ?thesis
  proof (cases rooted)
    case True
    have "fold (clean_step True) ([] # acc) [] = acc" using fid True by simp
    then show ?thesis using True sp by (simp add: render_def path_clean_def)
  next
    case nr: False
    then show ?thesis using js sp fid by (simp add: render_def path_clean_def)
  qed
qed

text \<open>
  C29. \<open>path.Clean\<close> is idempotent: a cleaned path is clean, so cleaning it again
  changes nothing (with C23, the same holds of the byte loop). gin's \<open>joinPaths\<close>
  and \<open>http.Redirect\<close> may clean a path that was cleaned before.
\<close>

theorem path_clean_idem: "path_clean (path_clean p) = path_clean p"
proof -
  obtain acc rooted where ok: "acc_ok rooted acc"
    and pc: "path_clean p = (let res = render rooted acc in if res = [] then ''.'' else res)"
    using path_clean_cases by blast
  show ?thesis
  proof (cases "render rooted acc = []")
    case True
    then show ?thesis using pc by (simp add: path_clean_def)
  next
    case False
    then show ?thesis using pc path_clean_render_ok [OF ok False] by simp
  qed
qed

text \<open>
  C30. As the documentation of \<open>path.Clean\<close> says, the returned path ends in a
  slash only if it is the root \<open>/\<close>; this is why \<open>joinPaths\<close> and
  \<open>http.Redirect\<close> put a trailing slash back themselves.
\<close>

theorem path_clean_trailing_slash: "last (path_clean p) = CHR ''/'' \<longleftrightarrow> path_clean p = ''/''"
proof -
  obtain acc rooted where ok: "acc_ok rooted acc"
    and pc: "path_clean p = (let res = render rooted acc in if res = [] then ''.'' else res)"
    using path_clean_cases by blast
  show ?thesis
  proof (cases "acc = []")
    case True
    then show ?thesis using pc by (cases rooted) (simp_all add: render_def)
  next
    case False
    have js: "join_slash acc \<noteq> [] \<and> last (join_slash acc) \<noteq> CHR ''/''"
      using join_slash_elems [OF False acc_ok_elems [OF ok]] by blast
    then have "length (join_slash acc) \<noteq> 0" by simp
    then show ?thesis using pc js by (cases rooted) (auto simp: render_def)
  qed
qed

end
