(* ===== verification/Spec2Isabelle.thy ===== *)
theory Spec2Isabelle
  imports Swagger GoClean
begin

text \<open>
  \<^bold>\<open>A verification development of go-restful-api-example.\<close>

  The repository is one Go file, src/main.go: a gin server with a health probe, a
  redirect from \<open>/\<close> to the swagger UI, the swagger UI itself, and five CRUD
  endpoints for a \<open>Gopher\<close> resource. The five CRUD handlers are stubs: they never
  read the request and answer with fixed values. The spec describes the store those
  stubs stand for (validation, ids, 404s); this development models what the code does,
  and the theorems about the spec's promises show where the code differs.

  \<^bold>\<open>Parts and theories.\<close>
  \<^item> \<open>Prelude\<close>: fact collections (\<open>json_simps\<close>, \<open>handler_defs\<close>,
    \<open>route_simps\<close>), the parser type, hexadecimal digits, shared list and char lemmas.
  \<^item> \<open>Json\<close>: the JSON text gin's \<open>c.JSON\<close> writes through Go's
    \<open>json.Marshal\<close>: the string escaper \<open>appendString\<close> (HTML escaping, UTF-8 decoding
    by \<open>utf8.DecodeRuneInString\<close>, U+FFFD for invalid bytes, escaped U+2028/2029) as
    \<open>escape_loop\<close>/\<open>quote_string\<close>, values as \<open>json\<close>, \<open>marshal\<close>, and Go maps
    with sorted keys as \<open>json_of_map\<close>.
  \<^item> \<open>Gopher\<close>: \<open>type Gopher struct\<close> (main.go 52-56) as the record \<open>gopher\<close>, its
    zero value \<open>Gopher{}\<close> and its JSON form under the struct tags.
  \<^item> \<open>Gin\<close>: gin's \<open>responseWriter\<close> as the record \<open>writer\<close> with one step
    function \<open>wstep\<close> over the operations \<open>wop\<close> (\<open>WriteHeader\<close>,
    \<open>WriteHeaderNow\<close>, \<open>Write\<close>, header updates), the context methods the handlers
    call (\<open>c_Status\<close>, \<open>c_JSON\<close>, \<open>c_Redirect\<close> with net/http's \<open>http.Redirect\<close>
    and gin's Recovery answering a panic with 500), \<open>new_ctx\<close> and
    \<open>run_handler\<close> (\<open>ServeHTTP\<close> then \<open>WriteHeaderNow\<close>), the writer invariant
    \<open>wf_writer\<close> and the reachable writers \<open>writer_reach\<close>.
  \<^item> \<open>Handlers\<close>: \<open>CreateGopher\<close>, \<open>GetGophers\<close>, \<open>GetGopherByID\<close>,
    \<open>UpdateGopher\<close>, \<open>DeleteGopher\<close>, \<open>HealthCheck\<close> (main.go 67-134) and the
    anonymous \<open>/\<close> handler \<open>root_redirect\<close> (30-32), each a function on the context.
  \<^item> \<open>GoPath\<close>: Go's \<open>path.Clean\<close> element-wise (\<open>path_clean\<close>: split on slashes,
    fold \<open>clean_step\<close>, join) and \<open>path.Join\<close>; this is the reference definition the
    other theories use.
  \<^item> \<open>GoClean\<close>: \<open>path.Clean\<close> as the byte loop of path/path.go: the record
    \<open>lazybuf\<close> with \<open>lb_index\<close>, \<open>lb_append\<close> (copy on the first byte that differs)
    and \<open>lb_string\<close>; the inner loops \<open>backtrack\<close> and \<open>copy_elem\<close>; one pass of
    the main loop \<open>clean_iter\<close>; the loop \<open>clean_loop\<close> (a \<open>function\<close> with the
    measure \<open>len(path) - r\<close>) and \<open>clean_go\<close>. The invariant \<open>clean_inv\<close>
    relates the buffer to the element list of the reference.
  \<^item> \<open>NetUrl\<close>: the parts of net/url and net/http that \<open>http.Redirect\<close> runs on
    its url: \<open>escape_path\<close> (\<open>escape(s, encodePath)\<close>, which is how
    \<open>req.URL.String()\<close> prints the path of gin's trailing-slash redirect),
    \<open>path_unescape\<close> (\<open>unescape(s, encodePath)\<close>, how a server turns the requested
    path back into \<open>URL.Path\<close>), \<open>url_parse\<close> (scheme, host and path of
    \<open>url.Parse\<close>, with its errors), and \<open>redirect_url\<close> (a relative url is made
    absolute against the request path, the path is cleaned by \<open>path.Clean\<close> with a
    trailing slash kept, \<open>clean_trailing\<close>, the query put back).
  \<^item> \<open>Router\<close>: gin's \<open>joinPaths\<close> with Go's \<open>path.Clean\<close>, route patterns,
    \<open>add_route\<close>/\<open>add_routes\<close> (\<open>engine.addRoute\<close>, its panics as \<open>Inl\<close>),
    \<open>match_segs\<close> and \<open>lookup\<close> (tree lookup with static before parameter before
    catch-all), the trailing-slash recommendation \<open>tsr\<close> with \<open>match_loose\<close>,
    \<open>dispatch\<close> and \<open>handle_request\<close> (\<open>handleHTTPRequest\<close>: handler,
    trailing-slash redirect, or 404).
  \<^item> \<open>App\<close>: \<open>main\<close> (27-50): the registrations \<open>main_registrations\<close>, the table
    \<open>main_routes\<close>, \<open>r.Run\<close> and \<open>log.Fatalf\<close> as \<open>main\<close>, and \<open>serve\<close>, the
    response of the running server to one request. The swagger UI handler of
    gin-swagger is a parameter \<open>swagger\<close>: all results hold for every such handler.

  \<^item> \<open>Swagger\<close>: the swag annotations of main.go (13-26 and the comment block above
    each handler) as records \<open>api_info\<close>, \<open>doc_op\<close>, \<open>doc_param\<close>, the
    documented operations \<open>swagger_ops\<close>, and \<open>conforms\<close>, an executable check that a
    served response has a documented status and a body that decodes to the documented
    schema.

  \<^bold>\<open>What is proved here.\<close>
  \<^item> Routing (C1, C2, C9-C11): registration never panics and gives the table main.go
    means; only the eight route shapes reach a handler; the root redirect, the swagger
    UI route and the 404 of unknown methods.
  \<^item> Endpoints (C3-C8): the exact response (status, headers, body bytes) of every
    endpoint for every request body and path parameter.
  \<^item> JSON (C12, C13, C16): Go's string escaper is inverted by a JSON string decoder on
    every valid UTF-8 string; the marshalled gopher arrays decode back to their values;
    a string map is written in the order of its keys (\<open>json_of_map\<close>) and decodes
    back to its entries.
  \<^item> Response writer (C14, C15): every reachable writer is well formed, and the status
    and headers are fixed once the header is sent.
  \<^item> Documentation (C17, C18): every route answers as its swagger annotation says, and
    the annotations document exactly the registered routes.
  \<^item> JSON bounds (C19, C20): every marshalled text is valid UTF-8, and the escaper's
    output is between one and six times the length of its input.
  \<^item> Liveness (C21, C22): a handler that writes only through gin's writer leaves a
    response after the final \<open>WriteHeaderNow\<close>, and the running server answers
    every request (handler, trailing-slash redirect or 404).
  \<^item> path.Clean (C23-C25): the byte loop equals the element-wise definition on every
    string (the invariant \<open>clean_inv\<close> is kept by each pass, \<open>clean_iter_inv\<close>);
    each pass advances the read index within the path, so the loop terminates; the
    result is never longer than a non-empty input.
  \<^item> Redirect locations (C26): every trailing-slash redirect of the running server has
    a \<open>Location\<close> that is an absolute path without \<open>.\<close> or \<open>..\<close> elements. The
    proof goes through the target of the redirect (a slash followed by a non-slash,
    \<open>tsr_abs_first_seg\<close>), the parse of the escaped path (\<open>url_parse_escaped\<close>),
    and the normal form of a cleaned rooted path (\<open>path_clean_root_elems\<close>).
  \<^item> Escaping (C27, C28): unescaping inverts path escaping; the \<open>Location\<close> of every
    trailing-slash redirect is the escaped \<open>clean_trailing\<close> of the target, because
    \<open>path.Clean\<close> commutes with escaping (\<open>path_clean_escape_path\<close>). Together: a
    client that follows the redirect reaches the router with the cleaned target.
  \<^item> Normal form of path.Clean (C29, C30): cleaning is idempotent, and a cleaned path
    ends in a slash only when it is \<open>/\<close>. Both follow from the invariant
    \<open>acc_ok\<close> of the cleaned elements, which every \<open>clean_step\<close> keeps
    (\<open>fold_clean_ok\<close>) and which a second fold reproduces unchanged
    (\<open>fold_clean_ok_id\<close>).
  \<^item> Redirect chains (C31): the follow-up request of a trailing-slash redirect is
    dispatched to a handler, answered with 404, or redirected once more to a path
    that is dispatched to a handler. The proof goes through the targets a redirect can
    have (\<open>main_tsr_targets\<close>), the only catch-all target \<open>/swagger/\<close>
    (\<open>main_trailing_swagger\<close>), and the cleaning of \<open>/gophers/{id}\<close>
    (\<open>clean_trailing_gopher\<close>).

  \<^bold>\<open>The trailing-slash rule.\<close> gin documents the redirect as "the route exists
  with or without the trailing slash"; its tree lookup (\<open>value.tsr\<close>) is what the model
  follows (\<open>tsr\<close> in Router): a path ending in a slash is redirected when the path
  without it reaches a route, a final \<open>:param\<close> being allowed to be empty, so
  \<open>GET /gophers//\<close> is redirected to \<open>/gophers/\<close> and then to \<open>/gophers\<close>;
  another path is redirected when the path with a slash added reaches a route.

  \<^bold>\<open>Bounds and fuel.\<close> The list decoder \<open>list_items\<close> takes fuel; the round trips
  give it the length of the text, which bounds the number of items. The escaper and
  the string decoder terminate by a measure on the remaining input, so no fuel is
  needed there. The loops of \<open>path.Clean\<close> terminate by measures too: \<open>backtrack\<close> on
  the write index, \<open>copy_elem\<close> and \<open>clean_loop\<close> on the bytes left to read.

  \<^bold>\<open>Not modelled.\<close> The swagger UI and the generated docs package (library and
  generated code; the UI handler is the parameter \<open>sw\<close>); net/http's connection
  handling, automatic \<open>Date\<close> and \<open>Content-Length\<close> headers, HEAD body
  suppression; gin's logger; the process itself beyond \<open>r.Run\<close>'s result
  (\<open>log.Fatalf\<close>'s timestamp prefix is left out of the message). gin's tree lookup
  is modelled by a priority sort of the matching routes, which agrees with it on
  main.go's table, where no two routes of a method overlap; a parameter in the middle
  of a pattern, which gin lets match an empty segment, does not occur there. Of
  \<open>url.Parse\<close>, host and port validation, user info and the raw path are not
  modelled (the redirects of main.go have no host); the request's query string and
  headers such as \<open>X-Forwarded-Prefix\<close> are not part of the request model. The
  server keeps no state between requests, so there is no store to model: the spec's
  store exists only in the spec. Later work: numbers and booleans in \<open>json\<close>,
  gin's request binding (not called by the handlers), the 405 mode of gin (off by
  default).
\<close>

section \<open>Routing of main.go\<close>

text \<open>
  C1. \<open>main()\<close> registers its eight routes without a panic, and when \<open>r.Run\<close>
  serves, the server runs with exactly this table: \<open>GET /\<close>,
  \<open>GET /swagger/*any\<close>, \<open>GET /health\<close>, \<open>POST /gophers\<close>, \<open>GET /gophers\<close>
  and \<open>GET\<close>, \<open>PUT\<close>, \<open>DELETE\<close> on \<open>/gophers/:id\<close>, each with its handler.
\<close>

theorem main_serving: "App.main sw Serving = Running
  [\<lparr>rt_method = ''GET'', rt_path = ''/'', rt_pattern = [Static []], rt_handler = root_redirect\<rparr>,
   \<lparr>rt_method = ''GET'', rt_path = ''/swagger/*any'', rt_pattern = [Static ''swagger'', CatchAll ''any''],
      rt_handler = sw\<rparr>,
   \<lparr>rt_method = ''GET'', rt_path = ''/health'', rt_pattern = [Static ''health''], rt_handler = HealthCheck\<rparr>,
   \<lparr>rt_method = ''POST'', rt_path = ''/gophers'', rt_pattern = [Static ''gophers''], rt_handler = CreateGopher\<rparr>,
   \<lparr>rt_method = ''GET'', rt_path = ''/gophers'', rt_pattern = [Static ''gophers''], rt_handler = GetGophers\<rparr>,
   \<lparr>rt_method = ''GET'', rt_path = ''/gophers/:id'', rt_pattern = [Static ''gophers'', Param ''id''],
      rt_handler = GetGopherByID\<rparr>,
   \<lparr>rt_method = ''PUT'', rt_path = ''/gophers/:id'', rt_pattern = [Static ''gophers'', Param ''id''],
      rt_handler = UpdateGopher\<rparr>,
   \<lparr>rt_method = ''DELETE'', rt_path = ''/gophers/:id'', rt_pattern = [Static ''gophers'', Param ''id''],
      rt_handler = DeleteGopher\<rparr>]"
  by (simp add: App.main_def main_routes_eq)

text \<open>
  C2. No request outside the eight route shapes reaches a handler: whatever the
  router finds in main's table is one of them, with the path parameter it names
  (\<open>id\<close> a non-empty segment, \<open>any\<close> the rest of the path after \<open>/swagger\<close>).
\<close>

theorem main_routes_complete:
  assumes "main_routes sw = Inr rs" and "lookup rs m p = Some (h, ps)"
  shows "(m = ''GET'' \<and> p = ''/'' \<and> h = root_redirect \<and> ps = [])
       \<or> (m = ''GET'' \<and> (\<exists>r. p = ''/swagger/'' @ r \<and> h = sw \<and> ps = [(''any'', ''/'' @ r)]))
       \<or> (m = ''GET'' \<and> p = ''/health'' \<and> h = HealthCheck \<and> ps = [])
       \<or> (m = ''POST'' \<and> p = ''/gophers'' \<and> h = CreateGopher \<and> ps = [])
       \<or> (m = ''GET'' \<and> p = ''/gophers'' \<and> h = GetGophers \<and> ps = [])
       \<or> (\<exists>g. g \<noteq> [] \<and> CHR ''/'' \<notin> set g \<and> p = ''/gophers/'' @ g \<and> ps = [(''id'', g)] \<and>
            (m = ''GET'' \<and> h = GetGopherByID \<or> m = ''PUT'' \<and> h = UpdateGopher
             \<or> m = ''DELETE'' \<and> h = DeleteGopher))"
  using main_lookup_cases [OF assms] .

theorem main_routes_complete_witness:
  "main_routes (\<lambda>c. c) = Inr (projr (main_routes (\<lambda>c. c)))
   \<and> lookup (projr (main_routes (\<lambda>c. c))) ''GET'' ''/health'' = Some (HealthCheck, [])
   \<and> ((''GET'' = ''GET'' \<and> ''/health'' = ''/'' \<and> HealthCheck = root_redirect \<and> ([] :: (string \<times> string) list) = [])
       \<or> (''GET'' = ''GET'' \<and> (\<exists>r. ''/health'' = ''/swagger/'' @ r \<and> HealthCheck = (\<lambda>c. c)
                                \<and> ([] :: (string \<times> string) list) = [(''any'', ''/'' @ r)]))
       \<or> (''GET'' = ''GET'' \<and> ''/health'' = ''/health'' \<and> HealthCheck = HealthCheck
           \<and> ([] :: (string \<times> string) list) = [])
       \<or> (''GET'' = ''POST'' \<and> ''/health'' = ''/gophers'' \<and> HealthCheck = CreateGopher
           \<and> ([] :: (string \<times> string) list) = [])
       \<or> (''GET'' = ''GET'' \<and> ''/health'' = ''/gophers'' \<and> HealthCheck = GetGophers
           \<and> ([] :: (string \<times> string) list) = [])
       \<or> (\<exists>g. g \<noteq> [] \<and> CHR ''/'' \<notin> set g \<and> ''/health'' = ''/gophers/'' @ g
            \<and> ([] :: (string \<times> string) list) = [(''id'', g)] \<and>
            (''GET'' = ''GET'' \<and> HealthCheck = GetGopherByID \<or> ''GET'' = ''PUT'' \<and> HealthCheck = UpdateGopher
             \<or> ''GET'' = ''DELETE'' \<and> HealthCheck = DeleteGopher)))"
proof -
  have tab: "main_routes (\<lambda>c. c) = Inr (projr (main_routes (\<lambda>c. c)))"
    by (simp add: main_routes_eq)
  have lk: "lookup (projr (main_routes (\<lambda>c. c))) ''GET'' ''/health'' = Some (HealthCheck, [])"
    by (simp add: main_routes_eq lookup_def matches_def)
  show ?thesis
    using tab lk main_routes_complete [OF tab lk] by blast
qed

section \<open>The response of every endpoint\<close>

text \<open>
  C3. \<open>POST /gophers\<close> answers 201 with \<open>{"id":"","name":""}\<close> as JSON, whatever
  the request body: \<open>CreateGopher\<close> neither reads, validates nor stores the gopher.
\<close>

theorem serve_CreateGopher: "serve sw \<lparr>req_method = ''POST'', req_path = ''/gophers'', req_body = b\<rparr> =
  Some \<lparr>resp_status = 201, resp_header = [(''Content-Type'', jsonContentType)],
        resp_body = ''{\"id\":\"\",\"name\":\"\"}''\<rparr>"
  by (simp add: serve_simps handler_defs run_handler_c_JSON json_simps)

text \<open>C4. \<open>GET /gophers\<close> answers 200 with the empty JSON array \<open>[]\<close> (not \<open>null\<close>).\<close>

theorem serve_GetGophers: "serve sw \<lparr>req_method = ''GET'', req_path = ''/gophers'', req_body = b\<rparr> =
  Some \<lparr>resp_status = 200, resp_header = [(''Content-Type'', jsonContentType)], resp_body = ''[]''\<rparr>"
  by (simp add: serve_simps handler_defs run_handler_c_JSON json_simps)

text \<open>
  C5. \<open>GET /gophers/{id}\<close> answers 200 with the zero gopher for every non-empty
  \<open>id\<close> segment: it never answers 404.
\<close>

theorem serve_GetGopherByID: "gid \<noteq> [] \<Longrightarrow> CHR ''/'' \<notin> set gid \<Longrightarrow>
  serve sw \<lparr>req_method = ''GET'', req_path = ''/gophers/'' @ gid, req_body = b\<rparr> =
  Some \<lparr>resp_status = 200, resp_header = [(''Content-Type'', jsonContentType)],
        resp_body = ''{\"id\":\"\",\"name\":\"\"}''\<rparr>"
  by (simp add: serve_simps handler_defs run_handler_c_JSON json_simps)

theorem serve_GetGopherByID_witness:
  "''42'' \<noteq> [] \<and> CHR ''/'' \<notin> set ''42'' \<and>
   serve (\<lambda>c. c) \<lparr>req_method = ''GET'', req_path = ''/gophers/'' @ ''42'', req_body = []\<rparr> =
   Some \<lparr>resp_status = 200, resp_header = [(''Content-Type'', jsonContentType)],
         resp_body = ''{\"id\":\"\",\"name\":\"\"}''\<rparr>"
  using serve_GetGopherByID [of "''42''" "\<lambda>c. c" "[]"] by simp

text \<open>
  C6. \<open>PUT /gophers/{id}\<close> answers 200 with the zero gopher for every non-empty
  \<open>id\<close> and every body: nothing is updated and no 404 or 400 is produced.
\<close>

theorem serve_UpdateGopher: "gid \<noteq> [] \<Longrightarrow> CHR ''/'' \<notin> set gid \<Longrightarrow>
  serve sw \<lparr>req_method = ''PUT'', req_path = ''/gophers/'' @ gid, req_body = b\<rparr> =
  Some \<lparr>resp_status = 200, resp_header = [(''Content-Type'', jsonContentType)],
        resp_body = ''{\"id\":\"\",\"name\":\"\"}''\<rparr>"
  by (simp add: serve_simps handler_defs run_handler_c_JSON json_simps)

theorem serve_UpdateGopher_witness:
  "''7'' \<noteq> [] \<and> CHR ''/'' \<notin> set ''7'' \<and>
   serve (\<lambda>c. c) \<lparr>req_method = ''PUT'', req_path = ''/gophers/'' @ ''7'', req_body = ''{}''\<rparr> =
   Some \<lparr>resp_status = 200, resp_header = [(''Content-Type'', jsonContentType)],
         resp_body = ''{\"id\":\"\",\"name\":\"\"}''\<rparr>"
  using serve_UpdateGopher [of "''7''" "\<lambda>c. c" "''{}''"] by simp

text \<open>
  C7. \<open>DELETE /gophers/{id}\<close> answers 204 with no header set by the handler and an
  empty body, for every non-empty \<open>id\<close>.
\<close>

theorem serve_DeleteGopher: "gid \<noteq> [] \<Longrightarrow> CHR ''/'' \<notin> set gid \<Longrightarrow>
  serve sw \<lparr>req_method = ''DELETE'', req_path = ''/gophers/'' @ gid, req_body = b\<rparr> =
  Some \<lparr>resp_status = 204, resp_header = [], resp_body = []\<rparr>"
  by (simp add: serve_simps handler_defs run_handler_c_Status)

theorem serve_DeleteGopher_witness:
  "''abc'' \<noteq> [] \<and> CHR ''/'' \<notin> set ''abc'' \<and>
   serve (\<lambda>c. c) \<lparr>req_method = ''DELETE'', req_path = ''/gophers/'' @ ''abc'', req_body = []\<rparr> =
   Some \<lparr>resp_status = 204, resp_header = [], resp_body = []\<rparr>"
  using serve_DeleteGopher [of "''abc''" "\<lambda>c. c" "[]"] by simp

text \<open>C8. \<open>GET /health\<close> answers 200 with \<open>{"status":"ok"}\<close>, for every request body.\<close>

theorem serve_health: "serve sw \<lparr>req_method = ''GET'', req_path = ''/health'', req_body = b\<rparr> =
  Some \<lparr>resp_status = 200, resp_header = [(''Content-Type'', jsonContentType)],
        resp_body = ''{\"status\":\"ok\"}''\<rparr>"
  by (simp add: serve_simps handler_defs run_handler_c_JSON json_simps)

text \<open>
  C9. \<open>GET /\<close> is a permanent redirect (301) to \<open>/swagger/index.html\<close>, with the
  HTML body net/http writes for a GET.
\<close>

theorem serve_root: "serve sw \<lparr>req_method = ''GET'', req_path = ''/'', req_body = b\<rparr> =
  Some \<lparr>resp_status = 301,
        resp_header = [(''Content-Type'', htmlContentType), (''Location'', ''/swagger/index.html'')],
        resp_body = ''<a href=\"/swagger/index.html\">Moved Permanently</a>.'' @ [CHR 0x0A, CHR 0x0A]\<rparr>"
  by (simp add: serve_simps handler_defs run_handler_c_Redirect hex_escape_non_ascii_def
      html_escape_def html_escape_char_def status_text_def)

text \<open>
  C10. \<open>GET /swagger/...\<close> is handed to the swagger UI handler with the parameter
  \<open>any\<close> set to the rest of the path after \<open>/swagger\<close>.
\<close>

theorem serve_swagger: "serve sw \<lparr>req_method = ''GET'', req_path = ''/swagger/'' @ r, req_body = b\<rparr> =
  run_handler sw \<lparr>req_method = ''GET'', req_path = ''/swagger/'' @ r, req_body = b\<rparr> [(''any'', ''/'' @ r)]"
  by (simp add: serve_simps)

text \<open>
  C11. A request whose method has no route (anything but GET, POST, PUT, DELETE) is
  answered with gin's plain-text 404, whatever its path.
\<close>

theorem serve_other_method: "m \<notin> {''GET'', ''POST'', ''PUT'', ''DELETE''} \<Longrightarrow>
  serve sw \<lparr>req_method = m, req_path = p, req_body = b\<rparr> =
  Some \<lparr>resp_status = 404, resp_header = [(''Content-Type'', plainContentType)],
        resp_body = ''404 page not found''\<rparr>"
  by (auto simp: serve_def main_routes_eq handle_request_def dispatch_def lookup_no_method tsr_no_method
      writer_reset_def write_header_now_def written_def header_set_def response_of_def
      default404Body_def)

theorem serve_other_method_witness:
  "''PATCH'' \<notin> {''GET'', ''POST'', ''PUT'', ''DELETE''} \<and>
   serve (\<lambda>c. c) \<lparr>req_method = ''PATCH'', req_path = ''/gophers/1'', req_body = []\<rparr> =
   Some \<lparr>resp_status = 404, resp_header = [(''Content-Type'', plainContentType)],
         resp_body = ''404 page not found''\<rparr>"
  using serve_other_method [of "''PATCH''" "\<lambda>c. c" "''/gophers/1''" "[]"] by simp

text \<open>
  C22. Liveness of the server: as long as the swagger UI handler writes only through
  gin's writer, the running server answers every request (any method, any path, any
  body) with a response: a handler's, a trailing-slash redirect, or the 404.
\<close>

theorem serve_responds: "writer_handler sw \<Longrightarrow> \<exists>resp. serve sw req = Some resp"
  unfolding serve_def main_routes_eq
  by (simp add: handle_request_responds handlers_writer_handler)

theorem serve_responds_witness:
  "writer_handler (c_Status 200) \<and>
   (\<exists>resp. serve (c_Status 200) \<lparr>req_method = ''PATCH'', req_path = ''/x'', req_body = []\<rparr> = Some resp)"
  using c_Status_writer_handler serve_responds [OF c_Status_writer_handler] by blast

subsection \<open>Redirect locations\<close>

text \<open>
  The \<open>Location\<close> of a redirect to an absolute path whose first element is not empty:
  the escaped path, cleaned with its trailing slash kept.
\<close>

lemma redirect_location_escaped:
  assumes "t = [] \<or> hd t \<noteq> CHR ''/''"
  shows "hex_escape_non_ascii (redirect_url old (escape_path (CHR ''/'' # t))) =
           escape_path (clean_trailing (CHR ''/'' # t))"
proof -
  have "\<forall>x \<in> set (escape_path (clean_trailing (CHR ''/'' # t))). of_char x < (128::nat)"
    using escape_path_chars by blast
  then show ?thesis
    using redirect_url_escaped [OF assms, of old] clean_trailing_escape_path hex_escape_ascii_id by metis
qed

lemma redirect_location_clean:
  assumes "t = [] \<or> hd t \<noteq> CHR ''/''"
    and L: "L = hex_escape_non_ascii (redirect_url old (escape_path (CHR ''/'' # t)))"
  shows "L \<noteq> [] \<and> hd L = CHR ''/'' \<and> ''.'' \<notin> set (split_on (CHR ''/'') L) \<and> ''..'' \<notin> set (split_on (CHR ''/'') L)"
proof -
  define u where "u = escape_path (CHR ''/'' # t)"
  have u: "u \<noteq> []" "hd u = CHR ''/''" by (simp_all add: u_def escape_path_simps)
  have c: "''.'' \<notin> set (split_on (CHR ''/'') (path_clean u)) \<and> ''..'' \<notin> set (split_on (CHR ''/'') (path_clean u))
    \<and> path_clean u \<noteq> [] \<and> hd (path_clean u) = CHR ''/''"
    using path_clean_root_elems [OF u] by blast
  have "L = clean_trailing u"
    using L redirect_location_escaped [OF assms(1)] clean_trailing_escape_path unfolding u_def by simp
  then have "L = path_clean u @ ''/'' \<or> L = path_clean u"
    unfolding clean_trailing_def Let_def by presburger
  then show ?thesis using c by (auto simp: split_on_snoc_delim)
qed

text \<open>A trailing-slash redirect of the running server targets a matched path and carries the
  \<open>Location\<close> that \<open>http.Redirect\<close> computes for it.\<close>

lemma trailing_slash_response:
  assumes rs: "main_routes sw = Inr rs"
    and d: "dispatch rs (req_method req) (req_path req) = TrailingSlashRedirect loc code"
  shows "\<exists>t resp. loc = CHR ''/'' # t \<and> (t = [] \<or> hd t \<noteq> CHR ''/'') \<and> serve sw req = Some resp \<and>
           map_of (resp_header resp) ''Location'' = Some (hex_escape_non_ascii (redirect_url loc (escape_path loc)))"
proof -
  have "tsr rs (req_method req) (req_path req)" and l0: "loc = toggle_slash (req_path req)"
    using d by (auto simp: dispatch_def split: option.splits if_splits)
  then obtain t where loc: "loc = CHR ''/'' # t" and t: "t = [] \<or> hd t \<noteq> CHR ''/''"
    using tsr_abs_first_seg main_routes_first_seg [OF rs] by blast
  obtain resp where resp: "serve sw req = Some resp"
    and l: "map_of (resp_header resp) ''Location'' = Some (hex_escape_non_ascii (redirect_url loc (escape_path loc)))"
    using redirect_ops_reset_location [of "req_method req" loc "escape_path loc" code] rs d
    by (auto simp: serve_def handle_request_def)
  show ?thesis using loc t resp l by blast
qed

text \<open>
  C26. Every trailing-slash redirect of the running server points to a clean absolute
  path: the \<open>Location\<close> header is present, starts with a slash, and none of its
  slash-separated elements is \<open>.\<close> or \<open>..\<close>, whatever the request path.
\<close>

theorem trailing_slash_location_clean:
  assumes rs: "main_routes sw = Inr rs"
    and d: "dispatch rs (req_method req) (req_path req) = TrailingSlashRedirect loc code"
  shows "\<exists>resp L. serve sw req = Some resp \<and> map_of (resp_header resp) ''Location'' = Some L \<and>
           L \<noteq> [] \<and> hd L = CHR ''/'' \<and> ''.'' \<notin> set (split_on (CHR ''/'') L) \<and> ''..'' \<notin> set (split_on (CHR ''/'') L)"
  using trailing_slash_response [OF rs d] redirect_location_clean by blast

theorem trailing_slash_location_clean_witness:
  "main_routes (\<lambda>c. c) = Inr (projr (main_routes (\<lambda>c. c))) \<and>
   dispatch (projr (main_routes (\<lambda>c. c))) ''GET'' ''/gophers/../'' = TrailingSlashRedirect ''/gophers/..'' 301 \<and>
   (\<exists>resp L. serve (\<lambda>c. c) \<lparr>req_method = ''GET'', req_path = ''/gophers/../'', req_body = []\<rparr> = Some resp \<and>
      map_of (resp_header resp) ''Location'' = Some L \<and> L \<noteq> [] \<and> hd L = CHR ''/'' \<and>
      ''.'' \<notin> set (split_on (CHR ''/'') L) \<and> ''..'' \<notin> set (split_on (CHR ''/'') L))"
proof -
  have tab: "main_routes (\<lambda>c. c) = Inr (projr (main_routes (\<lambda>c. c)))" by (simp add: main_routes_eq)
  have d: "dispatch (projr (main_routes (\<lambda>c. c))) ''GET'' ''/gophers/../'' = TrailingSlashRedirect ''/gophers/..'' 301"
    by (simp add: main_routes_eq dispatch_def tsr_def lookup_def matches_def toggle_slash_def path_segments_def)
  have d': "dispatch (projr (main_routes (\<lambda>c. c)))
      (req_method \<lparr>req_method = ''GET'', req_path = ''/gophers/../'', req_body = []\<rparr>)
      (req_path \<lparr>req_method = ''GET'', req_path = ''/gophers/../'', req_body = []\<rparr>) = TrailingSlashRedirect ''/gophers/..'' 301"
    using d by simp
  show ?thesis using tab d trailing_slash_location_clean [OF tab d'] by blast
qed

text \<open>
  C28. Following a trailing-slash redirect: the \<open>Location\<close> of every trailing-slash
  redirect of the running server is the redirect target, cleaned by \<open>path.Clean\<close>
  with its trailing slash kept, and escaped as \<open>URL.String\<close> escapes a path. With
  C27, the follow-up request reaches the router with the cleaned target itself.
\<close>

theorem trailing_slash_location:
  assumes rs: "main_routes sw = Inr rs"
    and d: "dispatch rs (req_method req) (req_path req) = TrailingSlashRedirect loc code"
  shows "\<exists>resp. serve sw req = Some resp \<and>
           map_of (resp_header resp) ''Location'' = Some (escape_path (clean_trailing loc))"
proof -
  obtain t resp where loc: "loc = CHR ''/'' # t" and t: "t = [] \<or> hd t \<noteq> CHR ''/''"
    and resp: "serve sw req = Some resp"
    and l: "map_of (resp_header resp) ''Location'' = Some (hex_escape_non_ascii (redirect_url loc (escape_path loc)))"
    using trailing_slash_response [OF rs d] by blast
  show ?thesis using resp l redirect_location_escaped [OF t, of loc] loc by simp
qed

theorem trailing_slash_location_witness:
  "main_routes (\<lambda>c. c) = Inr (projr (main_routes (\<lambda>c. c))) \<and>
   dispatch (projr (main_routes (\<lambda>c. c))) ''PUT'' ''/gophers/a b/'' = TrailingSlashRedirect ''/gophers/a b'' 307 \<and>
   (\<exists>resp. serve (\<lambda>c. c) \<lparr>req_method = ''PUT'', req_path = ''/gophers/a b/'', req_body = []\<rparr> = Some resp \<and>
      map_of (resp_header resp) ''Location'' = Some ''/gophers/a%20b'')"
proof -
  have tab: "main_routes (\<lambda>c. c) = Inr (projr (main_routes (\<lambda>c. c)))" by (simp add: main_routes_eq)
  have d: "dispatch (projr (main_routes (\<lambda>c. c))) ''PUT'' ''/gophers/a b/'' = TrailingSlashRedirect ''/gophers/a b'' 307"
    by (simp add: main_routes_eq dispatch_def tsr_def lookup_def matches_def toggle_slash_def path_segments_def)
  have d': "dispatch (projr (main_routes (\<lambda>c. c)))
      (req_method \<lparr>req_method = ''PUT'', req_path = ''/gophers/a b/'', req_body = []\<rparr>)
      (req_path \<lparr>req_method = ''PUT'', req_path = ''/gophers/a b/'', req_body = []\<rparr>) = TrailingSlashRedirect ''/gophers/a b'' 307"
    using d by simp
  have e: "escape_path (clean_trailing ''/gophers/a b'') = ''/gophers/a%20b''" by code_simp
  show ?thesis using tab d trailing_slash_location [OF tab d'] e by simp
qed

text \<open>
  C31. Trailing-slash redirects of the running server chain at most twice: the request a
  client sends after one (same method, for the path the \<open>Location\<close> unescapes to,
  the cleaned target by C27 and C28) is dispatched to a handler, answered with 404, or
  redirected once more, and then to a path that is dispatched to a handler. Both hops
  happen: \<open>GET /gophers//\<close> goes to \<open>/gophers/\<close> (an empty \<open>:id\<close> followed by a
  slash) and then to \<open>/gophers\<close>.
\<close>

theorem trailing_slash_two_hops:
  assumes rs: "main_routes sw = Inr rs" and d: "dispatch rs m p = TrailingSlashRedirect loc code"
  shows "(\<exists>h ps. dispatch rs m (clean_trailing loc) = Dispatch h ps) \<or> dispatch rs m (clean_trailing loc) = NoRoute \<or>
         (\<exists>loc' code'. dispatch rs m (clean_trailing loc) = TrailingSlashRedirect loc' code' \<and>
            (\<exists>h ps. dispatch rs m (clean_trailing loc') = Dispatch h ps))"
proof -
  have ok: "lookup rs m (clean_trailing loc) \<noteq> None \<Longrightarrow> ?thesis" using dispatch_lookup by blast
  note v = main_dispatch_values [OF rs] and w = main_dispatch_gophers_slash [OF rs]
  from main_tsr_targets [OF rs d] show ?thesis
  proof (elim disjE conjE)
    assume "m = ''GET''" "loc = ''/''"
    then show ?thesis using ok v(5) by (simp add: clean_trailing_main)
  next
    assume "m = ''GET''" "loc = ''/swagger/''"
    then show ?thesis using ok main_swagger_lookup [OF rs, of "[]"] by (simp add: clean_trailing_main)
  next
    assume "m = ''GET''" "loc = ''/health''"
    then show ?thesis using ok v(8) by (simp add: clean_trailing_main)
  next
    assume "m = ''GET''" "loc = ''/gophers''"
    then show ?thesis using ok v(6) by (simp add: clean_trailing_main)
  next
    assume "m = ''POST''" "loc = ''/gophers''"
    then show ?thesis using ok v(7) by (simp add: clean_trailing_main)
  next
    assume "\<exists>g. CHR ''/'' \<notin> set g \<and> loc = ''/gophers/'' @ g \<and> (m = ''GET'' \<or> m = ''PUT'' \<or> m = ''DELETE'')"
    then obtain g where g: "CHR ''/'' \<notin> set g" and l: "loc = ''/gophers/'' @ g"
      and m': "m = ''GET'' \<or> m = ''PUT'' \<or> m = ''DELETE''" by blast
    show ?thesis
    proof (cases "g = []")
      case True
      then have ct: "clean_trailing loc = ''/gophers/''" using l w(4) by simp
      show ?thesis using m'
      proof (elim disjE)
        assume "m = ''GET''"
        then show ?thesis using ct w(1) v(6) dispatch_lookup [of rs "''GET''" "clean_trailing ''/gophers''"]
          by (simp add: clean_trailing_main)
      qed (use ct w(2,3) in simp_all)
    next
      case ne: False
      have ct: "clean_trailing loc = (if g = ''.'' then ''/gophers'' else if g = ''..'' then ''/'' else ''/gophers/'' @ g)"
        using clean_trailing_gopher [OF ne g] l by simp
      consider "g = ''.''" | "g = ''..''" | "g \<noteq> ''.''" "g \<noteq> ''..''" by blast
      then show ?thesis
      proof cases
        case 1
        then show ?thesis using ct m' ok v(1,2,6) by auto
      next
        case 2
        then show ?thesis using ct m' ok v(3,4,5) by auto
      next
        case 3
        then show ?thesis using ct ok main_gopher_lookup [OF rs m' ne g] by simp
      qed
    qed
  qed
qed

theorem trailing_slash_two_hops_witness:
  "main_routes (\<lambda>c. c) = Inr (projr (main_routes (\<lambda>c. c))) \<and>
   dispatch (projr (main_routes (\<lambda>c. c))) ''GET'' ''/gophers//'' = TrailingSlashRedirect ''/gophers/'' 301 \<and>
   ((\<exists>h ps. dispatch (projr (main_routes (\<lambda>c. c))) ''GET'' (clean_trailing ''/gophers/'') = Dispatch h ps) \<or>
    dispatch (projr (main_routes (\<lambda>c. c))) ''GET'' (clean_trailing ''/gophers/'') = NoRoute \<or>
    (\<exists>loc' code'. dispatch (projr (main_routes (\<lambda>c. c))) ''GET'' (clean_trailing ''/gophers/'') =
        TrailingSlashRedirect loc' code' \<and>
      (\<exists>h ps. dispatch (projr (main_routes (\<lambda>c. c))) ''GET'' (clean_trailing loc') = Dispatch h ps)))"
proof -
  have tab: "main_routes (\<lambda>c. c) = Inr (projr (main_routes (\<lambda>c. c)))" by (simp add: main_routes_eq)
  have d: "dispatch (projr (main_routes (\<lambda>c. c))) ''GET'' ''/gophers//'' = TrailingSlashRedirect ''/gophers/'' 301"
    by (simp add: main_routes_eq dispatch_def tsr_def lookup_def matches_def toggle_slash_def path_segments_def)
  show ?thesis using tab d trailing_slash_two_hops [OF tab d] by blast
qed

end
